theory Spec2Isabelle
  imports Main "HOL-Library.Word"
begin

unbundle bit_operations_syntax

section \<open>Errors\<close>

text \<open>
  Every way a call of the library can stop early is a constructor here.
  \<open>InvalidArgument\<close>, \<open>LogicError\<close> and \<open>RuntimeError\<close> are the three standard
  exceptions the sources throw (\<open>std::invalid_argument\<close>, \<open>std::logic_error\<close>,
  \<open>std::runtime_error\<close>). \<open>AssertionFailed\<close> is a failed \<open>assert\<close> of
  \<open>vector.h\<close>: the process aborts, nothing is thrown and nothing can be caught.
  \<open>IoError\<close> is raised by the byte sources of \<open>marisa/grimoire/io.h\<close> when
  fewer bytes are left than a read asks for. \<open>InvalidAccess\<close> stands for a read or
  write outside every live block of the store (undefined behaviour in C++).
\<close>

datatype error =
    InvalidArgument
  | LogicError
  | RuntimeError
  | AssertionFailed
  | IoError
  | InvalidAccess

section \<open>Configuration flags: \<open>lib/marisa/grimoire/trie/config.h\<close>\<close>

text \<open>
  \<open>config.h\<close> uses the enumerators of \<open>marisa/base.h\<close>, which is not among the
  sources. They are a parameter of the model: a record with one field per enumerator
  that \<open>config.h\<close> mentions. An \<open>int\<close> is a 32-bit word; the bitwise operators of
  C++ on \<open>int\<close> are the bitwise operators on the word.
\<close>

record base =
  MARISA_DEFAULT_NUM_TRIES :: "32 word"
  MARISA_HUGE_CACHE :: "32 word"
  MARISA_LARGE_CACHE :: "32 word"
  MARISA_NORMAL_CACHE :: "32 word"
  MARISA_SMALL_CACHE :: "32 word"
  MARISA_TINY_CACHE :: "32 word"
  MARISA_DEFAULT_CACHE :: "32 word"
  MARISA_TEXT_TAIL :: "32 word"
  MARISA_BINARY_TAIL :: "32 word"
  MARISA_DEFAULT_TAIL :: "32 word"
  MARISA_LABEL_ORDER :: "32 word"
  MARISA_WEIGHT_ORDER :: "32 word"
  MARISA_DEFAULT_ORDER :: "32 word"
  MARISA_NUM_TRIES_MASK :: "32 word"
  MARISA_CACHE_LEVEL_MASK :: "32 word"
  MARISA_TAIL_MODE_MASK :: "32 word"
  MARISA_NODE_ORDER_MASK :: "32 word"
  MARISA_CONFIG_MASK :: "32 word"

text \<open>
  Modelled from the spec: \<open>marisa/base.h\<close> is missing, and with it the value of every
  enumerator. The specification (section 6) fixes the groups, their recognised values
  and their defaults: \<open>num_tries\<close> in 1..7 with default 3; \<open>cache_level\<close> one of
  tiny, small, normal, large, huge with default normal; \<open>tail_mode\<close> text or binary
  with default binary; \<open>node_order\<close> label or weight with default weight. It does not
  fix the bit positions. This instance gives \<open>num_tries\<close> the three low bits (the
  values 0..7), every other recognised value one bit of its own, and lets the
  configuration mask be the union of the four group masks. It is used only to evaluate
  the model at concrete flags; the general theorems below hold for every \<open>base\<close>.
\<close>

definition marisa_base :: base where
  "marisa_base = \<lparr>
     MARISA_DEFAULT_NUM_TRIES = 0x00003,
     MARISA_HUGE_CACHE = 0x00080,
     MARISA_LARGE_CACHE = 0x00100,
     MARISA_NORMAL_CACHE = 0x00200,
     MARISA_SMALL_CACHE = 0x00400,
     MARISA_TINY_CACHE = 0x00800,
     MARISA_DEFAULT_CACHE = 0x00200,
     MARISA_TEXT_TAIL = 0x01000,
     MARISA_BINARY_TAIL = 0x02000,
     MARISA_DEFAULT_TAIL = 0x02000,
     MARISA_LABEL_ORDER = 0x10000,
     MARISA_WEIGHT_ORDER = 0x20000,
     MARISA_DEFAULT_ORDER = 0x20000,
     MARISA_NUM_TRIES_MASK = 0x00007,
     MARISA_CACHE_LEVEL_MASK = 0x00F80,
     MARISA_TAIL_MODE_MASK = 0x0F000,
     MARISA_NODE_ORDER_MASK = 0xF0000,
     MARISA_CONFIG_MASK = 0xFFF87
   \<rparr>"

text \<open>
  The class \<open>Config\<close> has one data member, \<open>int flags_\<close>. A name cannot end in
  an underscore here, so a data member \<open>x_\<close> of the source is the field \<open>m_x\<close>.
\<close>

record Config =
  m_flags :: "32 word"

text \<open>
  \<open>Config() = default\<close>: the member initialiser
  \<open>flags_ = MARISA_DEFAULT_NUM_TRIES | MARISA_DEFAULT_CACHE | MARISA_DEFAULT_TAIL | MARISA_DEFAULT_ORDER\<close>.
\<close>

definition Config_default :: "base \<Rightarrow> Config" where
  "Config_default c =
     \<lparr> m_flags = MARISA_DEFAULT_NUM_TRIES c OR MARISA_DEFAULT_CACHE c
                 OR MARISA_DEFAULT_TAIL c OR MARISA_DEFAULT_ORDER c \<rparr>"

text \<open>\<open>parse_num_tries\<close>: the body is empty in the source.\<close>

definition parse_num_tries :: "base \<Rightarrow> 32 word \<Rightarrow> Config \<Rightarrow> error + Config" where
  "parse_num_tries c config_flags cfg = Inr cfg"

text \<open>
  The three \<open>switch\<close> statements. \<open>case 0\<close> ors the default into \<open>flags_\<close>; the
  cases of the recognised values only \<open>break\<close>; \<open>default\<close> throws
  \<open>std::invalid_argument\<close>.
\<close>

definition parse_cache_level :: "base \<Rightarrow> 32 word \<Rightarrow> Config \<Rightarrow> error + Config" where
  "parse_cache_level c config_flags cfg =
     (let x = config_flags AND MARISA_CACHE_LEVEL_MASK c in
      if x = 0 then Inr (cfg\<lparr>m_flags := m_flags cfg OR MARISA_DEFAULT_CACHE c\<rparr>)
      else if x = MARISA_HUGE_CACHE c then Inr cfg
      else if x = MARISA_LARGE_CACHE c then Inr cfg
      else if x = MARISA_NORMAL_CACHE c then Inr cfg
      else if x = MARISA_SMALL_CACHE c then Inr cfg
      else if x = MARISA_TINY_CACHE c then Inr cfg
      else Inl InvalidArgument)"

definition parse_tail_mode :: "base \<Rightarrow> 32 word \<Rightarrow> Config \<Rightarrow> error + Config" where
  "parse_tail_mode c config_flags cfg =
     (let x = config_flags AND MARISA_TAIL_MODE_MASK c in
      if x = 0 then Inr (cfg\<lparr>m_flags := m_flags cfg OR MARISA_DEFAULT_TAIL c\<rparr>)
      else if x = MARISA_TEXT_TAIL c then Inr cfg
      else if x = MARISA_BINARY_TAIL c then Inr cfg
      else Inl InvalidArgument)"

definition parse_node_order :: "base \<Rightarrow> 32 word \<Rightarrow> Config \<Rightarrow> error + Config" where
  "parse_node_order c config_flags cfg =
     (let x = config_flags AND MARISA_NODE_ORDER_MASK c in
      if x = 0 then Inr (cfg\<lparr>m_flags := m_flags cfg OR MARISA_DEFAULT_ORDER c\<rparr>)
      else if x = MARISA_LABEL_ORDER c then Inr cfg
      else if x = MARISA_WEIGHT_ORDER c then Inr cfg
      else Inl InvalidArgument)"

text \<open>
  \<open>Config::parse\<close>: the mask test, then the four group parsers in the order of the
  source. The first exception ends the call.
\<close>

definition parse :: "base \<Rightarrow> 32 word \<Rightarrow> Config \<Rightarrow> error + Config" where
  "parse c config_flags cfg =
     (if (config_flags AND NOT (MARISA_CONFIG_MASK c)) \<noteq> 0 then Inl InvalidArgument
      else case parse_num_tries c config_flags cfg of
        Inl e \<Rightarrow> Inl e
      | Inr cfg1 \<Rightarrow>
          (case parse_cache_level c config_flags cfg1 of
             Inl e \<Rightarrow> Inl e
           | Inr cfg2 \<Rightarrow>
               (case parse_tail_mode c config_flags cfg2 of
                  Inl e \<Rightarrow> Inl e
                | Inr cfg3 \<Rightarrow> parse_node_order c config_flags cfg3)))"

text \<open>\<open>explicit Config(int flags)\<close>: a default-initialised object, then \<open>parse\<close>.\<close>

definition Config_of_flags :: "base \<Rightarrow> 32 word \<Rightarrow> error + Config" where
  "Config_of_flags c flags = parse c flags (Config_default c)"

text \<open>
  The accessors. \<open>num_tries\<close> converts the \<open>int\<close> to \<open>std::size_t\<close> (64 bits), which
  sign-extends; the other three cast the \<open>int\<close> to an enumeration type, which keeps
  the value.
\<close>

definition flags :: "Config \<Rightarrow> 32 word" where
  "flags cfg = m_flags cfg"

definition num_tries :: "base \<Rightarrow> Config \<Rightarrow> 64 word" where
  "num_tries c cfg = scast (m_flags cfg AND MARISA_NUM_TRIES_MASK c)"

definition cache_level :: "base \<Rightarrow> Config \<Rightarrow> 32 word" where
  "cache_level c cfg = m_flags cfg AND MARISA_CACHE_LEVEL_MASK c"

definition tail_mode :: "base \<Rightarrow> Config \<Rightarrow> 32 word" where
  "tail_mode c cfg = m_flags cfg AND MARISA_TAIL_MODE_MASK c"

definition node_order :: "base \<Rightarrow> Config \<Rightarrow> 32 word" where
  "node_order c cfg = m_flags cfg AND MARISA_NODE_ORDER_MASK c"

section \<open>The container and its I/O entry points: \<open>src/unnamed/part_000\<close>\<close>

text \<open>
  The file holds \<open>Trie\<close> (a \<open>std::unique_ptr\<close> to a \<open>grimoire::LoudsTrie\<close>), the
  class \<open>TrieIO\<close>, the free functions \<open>fread\<close>, \<open>read\<close>, \<open>operator>>\<close> and the
  member functions of \<open>TrieSerializer\<close>. \<open>LoudsTrie\<close>, \<open>Reader\<close> and \<open>Mapper\<close> are
  declared in headers that are not among the sources, so what the file calls of them is
  a parameter of the model: one record of collaborator operations, each returning an
  error or a value.

  A pointer is \<open>None\<close> (\<open>nullptr\<close>) or \<open>Some\<close> of what it points to. The byte
  sources a \<open>Reader\<close> or a \<open>Mapper\<close> is opened on are the constructors of \<open>source\<close>.
\<close>

datatype source =
    FILE_ptr "nat option"
  | istream nat
  | filename string
  | filename_flags string "32 word"
  | fd "32 word"
  | memory "nat option" "64 word"

record ('lt, 'ks, 'rd, 'mp) grimoire =
  LoudsTrie_new :: "'lt"
  LoudsTrie_of_keyset :: "'ks \<Rightarrow> 32 word \<Rightarrow> error + 'lt"
  LoudsTrie_read :: "'rd \<Rightarrow> 'lt \<Rightarrow> error + 'lt"
  LoudsTrie_map :: "'mp \<Rightarrow> 'lt \<Rightarrow> error + 'lt"
  Reader_open :: "source \<Rightarrow> error + 'rd"
  Mapper_open :: "source \<Rightarrow> error + 'mp"

text \<open>\<open>Trie\<close> has one data member, \<open>std::unique_ptr<grimoire::LoudsTrie> trie_\<close>.\<close>

record 'lt Trie =
  m_trie :: "'lt option"

text \<open>\<open>Trie::Trie()\<close> allocates a default \<open>LoudsTrie\<close>.\<close>

definition Trie_new :: "('lt, 'ks, 'rd, 'mp) grimoire \<Rightarrow> 'lt Trie" where
  "Trie_new g = \<lparr> m_trie = Some (LoudsTrie_new g) \<rparr>"

text \<open>
  A call that can throw returns the exception, if any, together with the object as the
  call leaves it: \<open>(None, t')\<close> is a normal return with the object in state \<open>t'\<close>,
  \<open>(Some e, t')\<close> is the exception \<open>e\<close> leaving the object in state \<open>t'\<close>.

  \<open>Trie::build\<close>: the new \<open>LoudsTrie\<close> is constructed into a temporary; only when the
  constructor has returned is the temporary swapped into \<open>trie_\<close>.
\<close>

definition build ::
  "('lt, 'ks, 'rd, 'mp) grimoire \<Rightarrow> 'ks \<Rightarrow> 32 word \<Rightarrow> 'lt Trie \<Rightarrow> error option \<times> 'lt Trie" where
  "build g keyset config_flags t =
     (case LoudsTrie_of_keyset g keyset config_flags of
        Inl e \<Rightarrow> (Some e, t)
      | Inr temp \<Rightarrow> (None, t\<lparr>m_trie := Some temp\<rparr>))"

text \<open>
  The queries forward to the \<open>LoudsTrie\<close> behind \<open>trie_\<close>. A query is any function of
  that object (\<open>num_keys\<close>, \<open>lookup\<close> with its agent, and so on); dereferencing a null
  \<open>trie_\<close> is an invalid access.
\<close>

definition query :: "('lt \<Rightarrow> 'r) \<Rightarrow> 'lt Trie \<Rightarrow> error + 'r" where
  "query q t = (case m_trie t of None \<Rightarrow> Inl InvalidAccess | Some lt \<Rightarrow> Inr (q lt))"

text \<open>
  The shared tail of every loading function: a default \<open>LoudsTrie\<close> temporary, a source
  opened, the temporary filled from it (\<open>temp->read(reader)\<close> or \<open>temp->map(mapper)\<close>),
  then the swap.
\<close>

definition read_and_swap ::
  "('lt, 'ks, 'rd, 'mp) grimoire \<Rightarrow> source \<Rightarrow> 'lt Trie \<Rightarrow> error option \<times> 'lt Trie" where
  "read_and_swap g s t =
     (let temp = LoudsTrie_new g in
      case Reader_open g s of
        Inl e \<Rightarrow> (Some e, t)
      | Inr reader \<Rightarrow>
          (case LoudsTrie_read g reader temp of
             Inl e \<Rightarrow> (Some e, t)
           | Inr temp' \<Rightarrow> (None, t\<lparr>m_trie := Some temp'\<rparr>)))"

definition map_and_swap ::
  "('lt, 'ks, 'rd, 'mp) grimoire \<Rightarrow> source \<Rightarrow> 'lt Trie \<Rightarrow> error option \<times> 'lt Trie" where
  "map_and_swap g s t =
     (let temp = LoudsTrie_new g in
      case Mapper_open g s of
        Inl e \<Rightarrow> (Some e, t)
      | Inr mapper \<Rightarrow>
          (case LoudsTrie_map g mapper temp of
             Inl e \<Rightarrow> (Some e, t)
           | Inr temp' \<Rightarrow> (None, t\<lparr>m_trie := Some temp'\<rparr>)))"

text \<open>
  \<open>TrieIO::fread\<close> and \<open>TrieIO::read\<close> take the trie by pointer: \<open>None\<close> is a null
  \<open>Trie *\<close>, and the state returned is what the pointer points to afterwards.
\<close>

definition TrieIO_fread ::
  "('lt, 'ks, 'rd, 'mp) grimoire \<Rightarrow> nat option \<Rightarrow> 'lt Trie option
     \<Rightarrow> error option \<times> 'lt Trie option" where
  "TrieIO_fread g file trie =
     (case trie of
        None \<Rightarrow> (Some InvalidArgument, None)
      | Some t \<Rightarrow> (let (r, t') = read_and_swap g (FILE_ptr file) t in (r, Some t')))"

definition TrieIO_read ::
  "('lt, 'ks, 'rd, 'mp) grimoire \<Rightarrow> nat \<Rightarrow> 'lt Trie option
     \<Rightarrow> error option \<times> 'lt Trie option" where
  "TrieIO_read g stream trie =
     (case trie of
        None \<Rightarrow> (Some InvalidArgument, None)
      | Some t \<Rightarrow> (let (r, t') = read_and_swap g (istream stream) t in (r, Some t')))"

text \<open>The free functions \<open>fread\<close> and \<open>read\<close>, and \<open>operator>>\<close>.\<close>

definition fread ::
  "('lt, 'ks, 'rd, 'mp) grimoire \<Rightarrow> nat option \<Rightarrow> 'lt Trie option
     \<Rightarrow> error option \<times> 'lt Trie option" where
  "fread g file trie =
     (if file = None then (Some InvalidArgument, trie)
      else if trie = None then (Some InvalidArgument, trie)
      else TrieIO_fread g file trie)"

definition read ::
  "('lt, 'ks, 'rd, 'mp) grimoire \<Rightarrow> nat \<Rightarrow> 'lt Trie option
     \<Rightarrow> error option \<times> 'lt Trie option" where
  "read g stream trie =
     (if trie = None then (Some InvalidArgument, trie)
      else TrieIO_read g stream trie)"

definition stream_extract ::
  "('lt, 'ks, 'rd, 'mp) grimoire \<Rightarrow> nat \<Rightarrow> 'lt Trie \<Rightarrow> error option \<times> 'lt Trie" where
  "stream_extract g stream t =
     (case read g stream (Some t) of
        (r, Some t') \<Rightarrow> (r, t')
      | (r, None) \<Rightarrow> (r, t))"

text \<open>
  The member functions of \<open>TrieSerializer\<close> that replace the trie. (A parameter of
  the source whose name is a constant of HOL or of this theory carries a prime.) The serializer's
  member \<open>trie_\<close> is the \<open>Trie\<close> it works on. Each starts with its argument check.
\<close>

definition TrieSerializer_mmap ::
  "('lt, 'ks, 'rd, 'mp) grimoire \<Rightarrow> string option \<Rightarrow> 32 word \<Rightarrow> 'lt Trie
     \<Rightarrow> error option \<times> 'lt Trie" where
  "TrieSerializer_mmap g fname flags' t =
     (case fname of
        None \<Rightarrow> (Some InvalidArgument, t)
      | Some name \<Rightarrow> map_and_swap g (filename_flags name flags') t)"

definition TrieSerializer_map ::
  "('lt, 'ks, 'rd, 'mp) grimoire \<Rightarrow> nat option \<Rightarrow> 64 word \<Rightarrow> 'lt Trie
     \<Rightarrow> error option \<times> 'lt Trie" where
  "TrieSerializer_map g ptr size' t =
     (if ptr = None \<and> size' \<noteq> 0 then (Some InvalidArgument, t)
      else map_and_swap g (memory ptr size') t)"

definition TrieSerializer_load ::
  "('lt, 'ks, 'rd, 'mp) grimoire \<Rightarrow> string option \<Rightarrow> 'lt Trie
     \<Rightarrow> error option \<times> 'lt Trie" where
  "TrieSerializer_load g fname t =
     (case fname of
        None \<Rightarrow> (Some InvalidArgument, t)
      | Some name \<Rightarrow> read_and_swap g (filename name) t)"

definition TrieSerializer_read ::
  "('lt, 'ks, 'rd, 'mp) grimoire \<Rightarrow> 32 word \<Rightarrow> 'lt Trie \<Rightarrow> error option \<times> 'lt Trie" where
  "TrieSerializer_read g d t =
     (if d = - 1 then (Some InvalidArgument, t)
      else read_and_swap g (fd d) t)"

text \<open>
  A small instance of the collaborators, to run the entry points on: a \<open>LoudsTrie\<close> is
  the list of its keys, a keyset is a list of keys and building fails on flags with a
  bit outside the twenty low ones, a \<open>Reader\<close> or \<open>Mapper\<close> is the list of keys left in
  the source, opening a file fails on every name but \<open>''dict''\<close>, and a region of
  memory of size 0 holds no key.
\<close>

definition toy :: "(string list, string list, string list, string list) grimoire" where
  "toy = \<lparr>
     LoudsTrie_new = [],
     LoudsTrie_of_keyset =
       (\<lambda>ks fl. if fl AND NOT 0xFFFFF \<noteq> 0 then Inl InvalidArgument else Inr ks),
     LoudsTrie_read = (\<lambda>r lt. if r = [] then Inl IoError else Inr r),
     LoudsTrie_map = (\<lambda>m lt. Inr m),
     Reader_open =
       (\<lambda>s. case s of filename n \<Rightarrow> if n = ''dict'' then Inr [''a'', ''b''] else Inl IoError
              | _ \<Rightarrow> Inr []),
     Mapper_open =
       (\<lambda>s. case s of memory p n \<Rightarrow> if n = 0 then Inr [] else Inr [''a'']
              | _ \<Rightarrow> Inl IoError)
   \<rparr>"

section \<open>The growable vector: \<open>lib/marisa/grimoire/vector/vector.h\<close>\<close>

subsection \<open>Memory\<close>

text \<open>
  \<open>Vector<T>\<close> keeps its elements in a \<open>char\<close> buffer that it owns, or reads them
  through a pointer into memory that it does not own, and several claims are about
  which of the two happens. Memory is therefore explicit: a heap is a list of blocks of
  bytes, a block is named by its index, a freed block is \<open>None\<close>, and a pointer is
  \<open>None\<close> (\<open>nullptr\<close>) or a block with a byte offset into it.

  \<open>T\<close> is trivially copyable (the \<open>static_assert\<close> of the class), so a value of type
  \<open>T\<close> is its object representation: a list of \<open>sizeof(T)\<close> bytes. \<open>sizeof(T)\<close> is
  the parameter \<open>sz\<close> of every function below; \<open>std::size_t\<close> is a 64-bit word.
\<close>

type_synonym byte = "8 word"
type_synonym heap = "byte list option list"
type_synonym ptr = "(nat \<times> nat) option"

definition block :: "heap \<Rightarrow> nat \<Rightarrow> byte list option" where
  "block h b = (if b < length h then h ! b else None)"

text \<open>
  \<open>new char[n]\<close>: a fresh block. Its bytes are indeterminate in C++; every caller
  below overwrites all of them before it reads any, and the model starts them at 0.
  Allocation does not fail in the model (no \<open>std::bad_alloc\<close>).
\<close>

definition alloc :: "heap \<Rightarrow> nat \<Rightarrow> heap \<times> nat" where
  "alloc h n = (h @ [Some (replicate n 0)], length h)"

text \<open>
  What \<open>std::unique_ptr<char[]>\<close> does to the buffer it gives up: \<open>delete[]\<close>, and
  nothing for a null pointer.
\<close>

definition free :: "heap \<Rightarrow> nat option \<Rightarrow> heap" where
  "free h p = (case p of None \<Rightarrow> h | Some b \<Rightarrow> h[b := None])"

definition ptr_add :: "ptr \<Rightarrow> nat \<Rightarrow> ptr" where
  "ptr_add p k = (case p of None \<Rightarrow> None | Some (b, off) \<Rightarrow> Some (b, off + k))"

text \<open>
  Reading and writing \<open>n\<close> bytes through a pointer. \<open>None\<close> is an access outside
  every live block. Zero bytes can be read or written through any pointer.
\<close>

definition load :: "heap \<Rightarrow> ptr \<Rightarrow> nat \<Rightarrow> byte list option" where
  "load h p n =
     (if n = 0 then Some []
      else case p of
        None \<Rightarrow> None
      | Some (b, off) \<Rightarrow>
          (case block h b of
             None \<Rightarrow> None
           | Some bs \<Rightarrow> if off + n \<le> length bs then Some (take n (drop off bs)) else None))"

definition store_bytes :: "heap \<Rightarrow> ptr \<Rightarrow> byte list \<Rightarrow> heap option" where
  "store_bytes h p xs =
     (if xs = [] then Some h
      else case p of
        None \<Rightarrow> None
      | Some (b, off) \<Rightarrow>
          (case block h b of
             None \<Rightarrow> None
           | Some bs \<Rightarrow>
               if off + length xs \<le> length bs
               then Some (h[b := Some (take off bs @ xs @ drop (off + length xs) bs)])
               else None))"

text \<open>\<open>std::copy_n\<close>, \<open>std::memset\<close> with value 0 and \<open>std::fill_n\<close>, counted in bytes.\<close>

definition copy_n :: "heap \<Rightarrow> ptr \<Rightarrow> nat \<Rightarrow> ptr \<Rightarrow> heap option" where
  "copy_n h src n dst =
     (case load h src n of None \<Rightarrow> None | Some xs \<Rightarrow> store_bytes h dst xs)"

definition memset0 :: "heap \<Rightarrow> ptr \<Rightarrow> nat \<Rightarrow> heap option" where
  "memset0 h dst n = store_bytes h dst (replicate n 0)"

definition fill_n :: "heap \<Rightarrow> ptr \<Rightarrow> nat \<Rightarrow> byte list \<Rightarrow> heap option" where
  "fill_n h dst k x = store_bytes h dst (concat (replicate k x))"

subsection \<open>Byte sources and sinks\<close>

text \<open>
  \<open>vector.h\<close> reads and writes through the classes \<open>Reader\<close>, \<open>Writer\<close> and
  \<open>Mapper\<close> of \<open>marisa/grimoire/io.h\<close>, which is not among the sources. The
  specification treats them as plumbing that carries the persisted bytes (sections 1
  and 4.8): all multi-byte integers are little-endian, and a source that runs out of
  bytes is an I/O failure (section 7). Each definition below that stands for a part of
  \<open>io.h\<close> says so.
\<close>

text \<open>
  Modelled from the spec: the byte encoding of a \<open>uint64_t\<close> that \<open>Writer::write\<close>
  emits (\<open>io.h\<close> is missing): eight bytes, least significant first.
\<close>

fun nat_to_bytes :: "nat \<Rightarrow> nat \<Rightarrow> byte list" where
  "nat_to_bytes 0 n = []"
| "nat_to_bytes (Suc k) n = of_nat (n mod 256) # nat_to_bytes k (n div 256)"

text \<open>
  Modelled from the spec: the value of a little-endian byte sequence, as
  \<open>Reader::read\<close> and \<open>Mapper::map\<close> decode a \<open>uint64_t\<close> (\<open>io.h\<close> is missing).
\<close>

fun bytes_to_nat :: "byte list \<Rightarrow> nat" where
  "bytes_to_nat [] = 0"
| "bytes_to_nat (b # bs) = unat b + 256 * bytes_to_nat bs"

text \<open>
  Modelled from the spec: a \<open>uint64_t\<close> as the eight little-endian bytes that the
  missing \<open>io.h\<close> writes for it.
\<close>

definition le_bytes :: "64 word \<Rightarrow> byte list" where
  "le_bytes w = nat_to_bytes 8 (unat w)"

text \<open>
  Modelled from the spec: the \<open>uint64_t\<close> that the missing \<open>io.h\<close> reads from
  little-endian bytes.
\<close>

definition le_word :: "byte list \<Rightarrow> 64 word" where
  "le_word bs = of_nat (bytes_to_nat bs)"

text \<open>
  Modelled from the spec: \<open>Writer\<close> (\<open>io.h\<close> is missing). A writer is the sequence of
  bytes it has emitted so far.
\<close>

type_synonym Writer = "byte list"

text \<open>
  Modelled from the spec: \<open>Writer::write(const uint64_t &)\<close> (\<open>io.h\<close> is missing)
  appends the eight little-endian bytes of the value.
\<close>

definition Writer_write_u64 :: "Writer \<Rightarrow> 64 word \<Rightarrow> Writer" where
  "Writer_write_u64 w x = w @ le_bytes x"

text \<open>
  Modelled from the spec: \<open>Writer::write(const T *objs, std::size_t num_objs)\<close>
  (\<open>io.h\<close> is missing) appends the bytes of the objects, read from memory; \<open>n\<close> is
  their number of bytes.
\<close>

definition Writer_write_objs :: "heap \<Rightarrow> Writer \<Rightarrow> ptr \<Rightarrow> nat \<Rightarrow> error + Writer" where
  "Writer_write_objs h w p n =
     (case load h p n of None \<Rightarrow> Inl InvalidAccess | Some xs \<Rightarrow> Inr (w @ xs))"

text \<open>
  Modelled from the spec: \<open>Writer::seek(std::size_t size)\<close> (\<open>io.h\<close> is missing)
  advances the output by \<open>size\<close> bytes, which are padding and are emitted as zeros.
\<close>

definition Writer_seek :: "Writer \<Rightarrow> nat \<Rightarrow> Writer" where
  "Writer_seek w n = w @ replicate n 0"

text \<open>
  Modelled from the spec: \<open>Reader\<close> (\<open>io.h\<close> is missing). A reader is the byte
  sequence of its source with the position of the next byte to read.
\<close>

record Reader =
  r_data :: "byte list"
  r_pos :: nat

text \<open>
  Modelled from the spec: the read of \<open>n\<close> bytes that every \<open>Reader\<close> operation
  comes down to (\<open>io.h\<close> is missing). It takes the next \<open>n\<close> bytes and advances, or
  fails with an I/O error when fewer than \<open>n\<close> bytes are left.
\<close>

definition Reader_read_bytes :: "Reader \<Rightarrow> nat \<Rightarrow> error + (byte list \<times> Reader)" where
  "Reader_read_bytes r n =
     (if r_pos r + n \<le> length (r_data r)
      then Inr (take n (drop (r_pos r) (r_data r)), r\<lparr>r_pos := r_pos r + n\<rparr>)
      else Inl IoError)"

text \<open>Modelled from the spec: \<open>Reader::read(uint64_t *)\<close> (\<open>io.h\<close> is missing).\<close>

definition Reader_read_u64 :: "Reader \<Rightarrow> error + (64 word \<times> Reader)" where
  "Reader_read_u64 r =
     (case Reader_read_bytes r 8 of
        Inl e \<Rightarrow> Inl e
      | Inr (bs, r') \<Rightarrow> Inr (le_word bs, r'))"

text \<open>
  Modelled from the spec: \<open>Reader::seek(std::size_t size)\<close> (\<open>io.h\<close> is missing)
  skips \<open>size\<close> bytes of the source.
\<close>

definition Reader_seek :: "Reader \<Rightarrow> nat \<Rightarrow> error + Reader" where
  "Reader_seek r n =
     (case Reader_read_bytes r n of
        Inl e \<Rightarrow> Inl e
      | Inr (bs, r') \<Rightarrow> Inr r')"

text \<open>
  Modelled from the spec: \<open>Mapper\<close> (\<open>io.h\<close> is missing). A mapper is a pointer into
  the mapped region and the number of bytes of the region from there on.
\<close>

record Mapper =
  p_ptr :: ptr
  p_avail :: nat

text \<open>
  Modelled from the spec: the step that every \<open>Mapper\<close> operation comes down to
  (\<open>io.h\<close> is missing). It hands out the current pointer and advances by \<open>n\<close> bytes,
  or fails with an I/O error when fewer than \<open>n\<close> bytes are left. Nothing is copied.
\<close>

definition Mapper_map_data :: "Mapper \<Rightarrow> nat \<Rightarrow> error + (ptr \<times> Mapper)" where
  "Mapper_map_data m n =
     (if n \<le> p_avail m
      then Inr (p_ptr m, m\<lparr>p_ptr := ptr_add (p_ptr m) n, p_avail := p_avail m - n\<rparr>)
      else Inl IoError)"

text \<open>
  Modelled from the spec: \<open>Mapper::map(uint64_t *)\<close> (\<open>io.h\<close> is missing) reads the
  value at the current pointer and advances by eight bytes.
\<close>

definition Mapper_map_u64 :: "heap \<Rightarrow> Mapper \<Rightarrow> error + (64 word \<times> Mapper)" where
  "Mapper_map_u64 h m =
     (case Mapper_map_data m 8 of
        Inl e \<Rightarrow> Inl e
      | Inr (p, m') \<Rightarrow>
          (case load h p 8 of
             None \<Rightarrow> Inl InvalidAccess
           | Some bs \<Rightarrow> Inr (le_word bs, m')))"

text \<open>
  Modelled from the spec: \<open>Mapper::seek(std::size_t size)\<close> (\<open>io.h\<close> is missing)
  advances by \<open>size\<close> bytes. (\<open>Mapper::map(const T **objs, std::size_t num_objs)\<close>
  is \<open>Mapper_map_data\<close> with the number of bytes of the objects.)
\<close>

definition Mapper_seek :: "Mapper \<Rightarrow> nat \<Rightarrow> error + Mapper" where
  "Mapper_seek m n =
     (case Mapper_map_data m n of
        Inl e \<Rightarrow> Inl e
      | Inr (p, m') \<Rightarrow> Inr m')"

subsection \<open>The class\<close>

text \<open>
  The four data members: \<open>std::unique_ptr<char[]> buf_\<close> (the block the vector owns,
  if any), \<open>const T *const_objs_\<close>, \<open>std::size_t size_\<close> and
  \<open>std::size_t capacity_\<close>.
\<close>

record Vector =
  m_buf :: "nat option"
  m_const_objs :: ptr
  m_size :: "64 word"
  m_capacity :: "64 word"

text \<open>\<open>Vector() = default\<close>: the member initialisers.\<close>

definition Vector_default :: Vector where
  "Vector_default = \<lparr> m_buf = None, m_const_objs = None, m_size = 0, m_capacity = 0 \<rparr>"

definition Vector_size :: "Vector \<Rightarrow> 64 word" where
  "Vector_size v = m_size v"

definition capacity :: "Vector \<Rightarrow> 64 word" where
  "capacity v = m_capacity v"

definition fixed :: "Vector \<Rightarrow> bool" where
  "fixed v \<longleftrightarrow> m_buf v = None \<and> m_const_objs v \<noteq> None"

definition Vector_empty :: "Vector \<Rightarrow> bool" where
  "Vector_empty v \<longleftrightarrow> m_size v = 0"

definition total_size :: "64 word \<Rightarrow> Vector \<Rightarrow> 64 word" where
  "total_size sz v = sz * m_size v"

text \<open>
  \<open>io_size\<close>: \<open>sizeof(uint64_t) + ((total_size() + 7) & ~0x07U)\<close>. The literal
  \<open>0x07U\<close> is an \<open>unsigned int\<close>, so its complement is the 32-bit value
  \<open>0xFFFFFFF8\<close>, which is zero-extended to \<open>std::size_t\<close> for the conjunction.
\<close>

definition io_size :: "64 word \<Rightarrow> Vector \<Rightarrow> 64 word" where
  "io_size sz v = 8 + ((total_size sz v + 7) AND ucast (NOT (0x07 :: 32 word)))"

text \<open>\<open>max_size\<close>: \<open>SIZE_MAX / sizeof(T)\<close>.\<close>

definition max_size :: "64 word \<Rightarrow> 64 word" where
  "max_size sz = (- 1) div sz"

text \<open>\<open>objs()\<close>: the owned buffer as a \<open>T *\<close>, null when there is none.\<close>

definition objs :: "Vector \<Rightarrow> ptr" where
  "objs v = (case m_buf v of None \<Rightarrow> None | Some b \<Rightarrow> Some (b, 0))"

text \<open>\<open>&p[i]\<close> for a \<open>T *p\<close>: \<open>i\<close> elements of \<open>sizeof(T)\<close> bytes further.\<close>

definition elem_ptr :: "64 word \<Rightarrow> ptr \<Rightarrow> 64 word \<Rightarrow> ptr" where
  "elem_ptr sz p i = ptr_add p (unat i * unat sz)"

text \<open>
  A member function that can stop early returns the error, if any, and the heap and
  the object as the call leaves them. An \<open>assert\<close> is checked (the model is the build
  without \<open>NDEBUG\<close>) and stops the call with \<open>AssertionFailed\<close>.

  \<open>realloc\<close>: a new buffer of \<open>sizeof(T) * new_capacity\<close> bytes, the current elements
  copied to its start, the rest set to zero; the old buffer is released when \<open>buf_\<close>
  takes the new one.
\<close>

definition realloc ::
  "64 word \<Rightarrow> 64 word \<Rightarrow> heap \<times> Vector \<Rightarrow> error option \<times> heap \<times> Vector" where
  "realloc sz new_capacity s =
     (let (h, v) = s in
      if \<not> (new_capacity \<ge> m_size v) then (Some AssertionFailed, s)
      else if \<not> (new_capacity \<le> max_size sz) then (Some AssertionFailed, s)
      else
        let (h1, new_buf) = alloc h (unat (sz * new_capacity));
            new_objs = Some (new_buf, 0)
        in case copy_n h1 (objs v) (unat (m_size v) * unat sz) new_objs of
             None \<Rightarrow> (Some InvalidAccess, s)
           | Some h2 \<Rightarrow>
               (case memset0 h2 (elem_ptr sz new_objs (m_size v))
                                (unat ((new_capacity - m_size v) * sz)) of
                  None \<Rightarrow> (Some InvalidAccess, s)
                | Some h3 \<Rightarrow>
                    (None, (free h3 (m_buf v),
                            v\<lparr>m_buf := Some new_buf, m_const_objs := new_objs,
                              m_capacity := new_capacity\<rparr>))))"

definition reserve ::
  "64 word \<Rightarrow> 64 word \<Rightarrow> heap \<times> Vector \<Rightarrow> error option \<times> heap \<times> Vector" where
  "reserve sz capacity' s =
     (let (h, v) = s in
      if fixed v then (Some AssertionFailed, s)
      else if capacity' \<le> m_capacity v then (None, s)
      else if \<not> (capacity' \<le> max_size sz) then (Some AssertionFailed, s)
      else
        let new_capacity =
              (if m_capacity v > capacity' div 2
               then (if m_capacity v > max_size sz div 2 then max_size sz
                     else m_capacity v * 2)
               else capacity')
        in realloc sz new_capacity s)"

definition push_back ::
  "64 word \<Rightarrow> byte list \<Rightarrow> heap \<times> Vector \<Rightarrow> error option \<times> heap \<times> Vector" where
  "push_back sz x s =
     (let (h, v) = s in
      if fixed v then (Some AssertionFailed, s)
      else if \<not> (m_size v < max_size sz) then (Some AssertionFailed, s)
      else case reserve sz (m_size v + 1) s of
        (Some e, s1) \<Rightarrow> (Some e, s1)
      | (None, (h1, v1)) \<Rightarrow>
          (case store_bytes h1 (elem_ptr sz (objs v1) (m_size v1)) x of
             None \<Rightarrow> (Some InvalidAccess, (h1, v1))
           | Some h2 \<Rightarrow> (None, (h2, v1\<lparr>m_size := m_size v1 + 1\<rparr>))))"

definition pop_back :: "heap \<times> Vector \<Rightarrow> error option \<times> heap \<times> Vector" where
  "pop_back s =
     (let (h, v) = s in
      if fixed v then (Some AssertionFailed, s)
      else if \<not> (m_size v \<noteq> 0) then (Some AssertionFailed, s)
      else (None, (h, v\<lparr>m_size := m_size v - 1\<rparr>)))"

text \<open>
  \<open>resize(size)\<close>: the loop default-initialises the new elements, which writes nothing
  for a trivial \<open>T\<close>. \<open>resize(size, x)\<close> fills them with \<open>x\<close>.
\<close>

definition resize ::
  "64 word \<Rightarrow> 64 word \<Rightarrow> heap \<times> Vector \<Rightarrow> error option \<times> heap \<times> Vector" where
  "resize sz size' s =
     (let (h, v) = s in
      if fixed v then (Some AssertionFailed, s)
      else case reserve sz size' s of
        (Some e, s1) \<Rightarrow> (Some e, s1)
      | (None, (h1, v1)) \<Rightarrow> (None, (h1, v1\<lparr>m_size := size'\<rparr>)))"

definition resize_fill ::
  "64 word \<Rightarrow> 64 word \<Rightarrow> byte list \<Rightarrow> heap \<times> Vector \<Rightarrow> error option \<times> heap \<times> Vector" where
  "resize_fill sz size' x s =
     (let (h, v) = s in
      if fixed v then (Some AssertionFailed, s)
      else case reserve sz size' s of
        (Some e, s1) \<Rightarrow> (Some e, s1)
      | (None, (h1, v1)) \<Rightarrow>
          if size' > m_size v1
          then (case fill_n h1 (elem_ptr sz (objs v1) (m_size v1))
                            (unat (size' - m_size v1)) x of
                  None \<Rightarrow> (Some InvalidAccess, (h1, v1))
                | Some h2 \<Rightarrow> (None, (h2, v1\<lparr>m_size := size'\<rparr>)))
          else (None, (h1, v1\<lparr>m_size := size'\<rparr>)))"

text \<open>\<open>shrink\<close> throws \<open>std::logic_error\<close> on a fixed vector.\<close>

definition shrink ::
  "64 word \<Rightarrow> heap \<times> Vector \<Rightarrow> error option \<times> heap \<times> Vector" where
  "shrink sz s =
     (let (h, v) = s in
      if fixed v then (Some LogicError, s)
      else if m_size v \<noteq> m_capacity v then realloc sz (m_size v) s
      else (None, s))"

text \<open>
  The \<open>const\<close> accessors read through \<open>const_objs_\<close>. \<open>operator[]\<close>, \<open>front\<close> and
  \<open>back\<close> return the element (its bytes); \<open>begin\<close> and \<open>end\<close> return pointers.
\<close>

definition read_elem :: "64 word \<Rightarrow> heap \<Rightarrow> ptr \<Rightarrow> 64 word \<Rightarrow> error + byte list" where
  "read_elem sz h p i =
     (case load h (elem_ptr sz p i) (unat sz) of
        None \<Rightarrow> Inl InvalidAccess
      | Some x \<Rightarrow> Inr x)"

definition begin_const :: "Vector \<Rightarrow> ptr" where
  "begin_const v = m_const_objs v"

definition end_const :: "64 word \<Rightarrow> Vector \<Rightarrow> ptr" where
  "end_const sz v = elem_ptr sz (m_const_objs v) (m_size v)"

definition index_const :: "64 word \<Rightarrow> heap \<Rightarrow> Vector \<Rightarrow> 64 word \<Rightarrow> error + byte list" where
  "index_const sz h v i =
     (if \<not> (i < m_size v) then Inl AssertionFailed
      else read_elem sz h (m_const_objs v) i)"

definition front_const :: "64 word \<Rightarrow> heap \<Rightarrow> Vector \<Rightarrow> error + byte list" where
  "front_const sz h v =
     (if \<not> (m_size v \<noteq> 0) then Inl AssertionFailed
      else read_elem sz h (m_const_objs v) 0)"

definition back_const :: "64 word \<Rightarrow> heap \<Rightarrow> Vector \<Rightarrow> error + byte list" where
  "back_const sz h v =
     (if \<not> (m_size v \<noteq> 0) then Inl AssertionFailed
      else read_elem sz h (m_const_objs v) (m_size v - 1))"

text \<open>
  The non-\<open>const\<close> accessors hand out a \<open>T *\<close> or \<open>T &\<close> into the owned buffer, through
  which the caller may write: the model returns the pointer.
\<close>

definition begin_mut :: "Vector \<Rightarrow> error + ptr" where
  "begin_mut v = (if fixed v then Inl AssertionFailed else Inr (objs v))"

definition end_mut :: "64 word \<Rightarrow> Vector \<Rightarrow> error + ptr" where
  "end_mut sz v =
     (if fixed v then Inl AssertionFailed else Inr (elem_ptr sz (objs v) (m_size v)))"

definition index_mut :: "64 word \<Rightarrow> Vector \<Rightarrow> 64 word \<Rightarrow> error + ptr" where
  "index_mut sz v i =
     (if fixed v then Inl AssertionFailed
      else if \<not> (i < m_size v) then Inl AssertionFailed
      else Inr (elem_ptr sz (objs v) i))"

definition front_mut :: "64 word \<Rightarrow> Vector \<Rightarrow> error + ptr" where
  "front_mut sz v =
     (if fixed v then Inl AssertionFailed
      else if \<not> (m_size v \<noteq> 0) then Inl AssertionFailed
      else Inr (elem_ptr sz (objs v) 0))"

definition back_mut :: "64 word \<Rightarrow> Vector \<Rightarrow> error + ptr" where
  "back_mut sz v =
     (if fixed v then Inl AssertionFailed
      else if \<not> (m_size v \<noteq> 0) then Inl AssertionFailed
      else Inr (elem_ptr sz (objs v) (m_size v - 1)))"

text \<open>
  \<open>swap\<close> exchanges the four members. \<open>clear\<close> swaps with a default temporary, whose
  destructor then releases the buffer that was this vector's.
\<close>

definition Vector_swap :: "Vector \<times> Vector \<Rightarrow> Vector \<times> Vector" where
  "Vector_swap p = (let (a, b) = p in (b, a))"

definition clear :: "heap \<times> Vector \<Rightarrow> heap \<times> Vector" where
  "clear s =
     (let (h, v) = s;
          (temp, v') = Vector_swap (Vector_default, v)
      in (free h (m_buf temp), v'))"

text \<open>
  \<open>copyInit\<close>. The \<open>memset\<close> starts at \<open>&new_objs[size_]\<close> and covers
  \<open>(capacity - size_) * sizeof(T)\<close> bytes, where \<open>size_\<close> is the member of the vector
  being initialised (0 by the assertion), not the parameter \<open>size\<close>; the member is
  assigned after it.
\<close>

definition copyInit ::
  "64 word \<Rightarrow> ptr \<Rightarrow> 64 word \<Rightarrow> 64 word \<Rightarrow> heap \<times> Vector
     \<Rightarrow> error option \<times> heap \<times> Vector" where
  "copyInit sz src size' capacity' s =
     (let (h, v) = s in
      if \<not> (m_size v = 0) then (Some AssertionFailed, s)
      else
        let (h1, new_buf) = alloc h (unat (sz * capacity'));
            v1 = v\<lparr>m_buf := Some new_buf\<rparr>;
            h1' = free h1 (m_buf v);
            new_objs = objs v1
        in case copy_n h1' src (unat size' * unat sz) new_objs of
             None \<Rightarrow> (Some InvalidAccess, (h1', v1))
           | Some h2 \<Rightarrow>
               (case memset0 h2 (elem_ptr sz new_objs (m_size v1))
                                (unat ((capacity' - m_size v1) * sz)) of
                  None \<Rightarrow> (Some InvalidAccess, (h2, v1))
                | Some h3 \<Rightarrow>
                    (None, (h3, v1\<lparr>m_const_objs := new_objs, m_size := size',
                                   m_capacity := capacity'\<rparr>))))"

text \<open>
  The copy constructor starts from the member initialisers; copy assignment starts
  with \<open>clear()\<close>. Both then take the other vector's pointer, size and capacity when
  the other vector owns no buffer, and call \<open>copyInit\<close> when it does. (The model of
  copy assignment takes the two vectors as distinct objects.)
\<close>

definition Vector_copy ::
  "64 word \<Rightarrow> heap \<Rightarrow> Vector \<Rightarrow> error option \<times> heap \<times> Vector" where
  "Vector_copy sz h other =
     (if m_buf other = None
      then (None, (h, Vector_default\<lparr>m_const_objs := m_const_objs other,
                                     m_size := m_size other,
                                     m_capacity := m_capacity other\<rparr>))
      else copyInit sz (m_const_objs other) (m_size other) (m_capacity other)
             (h, Vector_default))"

definition Vector_assign ::
  "64 word \<Rightarrow> Vector \<Rightarrow> heap \<times> Vector \<Rightarrow> error option \<times> heap \<times> Vector" where
  "Vector_assign sz other s =
     (let (h, v) = clear s in
      if m_buf other = None
      then (None, (h, v\<lparr>m_const_objs := m_const_objs other,
                        m_size := m_size other,
                        m_capacity := m_capacity other\<rparr>))
      else copyInit sz (m_const_objs other) (m_size other) (m_capacity other) (h, v))"

text \<open>
  \<open>Vector(Mapper &)\<close>: the size prefix is read from the mapped bytes, the element
  pointer is the mapper's current pointer, and the padding is skipped. Nothing is
  allocated and the heap is not an output.
\<close>

definition Vector_of_Mapper ::
  "64 word \<Rightarrow> heap \<Rightarrow> Mapper \<Rightarrow> (error + Vector) \<times> Mapper" where
  "Vector_of_Mapper sz h mapper =
     (case Mapper_map_u64 h mapper of
        Inl e \<Rightarrow> (Inl e, mapper)
      | Inr (total_size', m1) \<Rightarrow>
          if total_size' > - 1 then (Inl RuntimeError, m1)
          else if total_size' mod sz \<noteq> 0 then (Inl RuntimeError, m1)
          else
            let size' = total_size' div sz in
            case Mapper_map_data m1 (unat size' * unat sz) of
              Inl e \<Rightarrow> (Inl e, m1)
            | Inr (p, m2) \<Rightarrow>
                (case Mapper_seek m2 (unat (8 - total_size' mod 8)) of
                   Inl e \<Rightarrow> (Inl e, m2)
                 | Inr m3 \<Rightarrow>
                     (Inr (Vector_default\<lparr>m_const_objs := p, m_size := size'\<rparr>), m3)))"

text \<open>
  \<open>Vector(Reader &)\<close>: the size prefix is read, the vector is resized, the elements
  are read into the owned buffer, and the padding is skipped. When the constructor
  throws, the buffer of the half-built vector is released.
\<close>

definition Vector_of_Reader ::
  "64 word \<Rightarrow> heap \<Rightarrow> Reader \<Rightarrow> (error + Vector) \<times> heap \<times> Reader" where
  "Vector_of_Reader sz h reader =
     (case Reader_read_u64 reader of
        Inl e \<Rightarrow> (Inl e, (h, reader))
      | Inr (total_size', r1) \<Rightarrow>
          if total_size' > - 1 then (Inl RuntimeError, (h, r1))
          else if total_size' mod sz \<noteq> 0 then (Inl RuntimeError, (h, r1))
          else
            let size' = total_size' div sz in
            case resize sz size' (h, Vector_default) of
              (Some e, (h1, v1)) \<Rightarrow> (Inl e, (free h1 (m_buf v1), r1))
            | (None, (h1, v1)) \<Rightarrow>
                (case Reader_read_bytes r1 (unat size' * unat sz) of
                   Inl e \<Rightarrow> (Inl e, (free h1 (m_buf v1), r1))
                 | Inr (xs, r2) \<Rightarrow>
                     (case store_bytes h1 (objs v1) xs of
                        None \<Rightarrow> (Inl InvalidAccess, (h1, r2))
                      | Some h2 \<Rightarrow>
                          (case Reader_seek r2 (unat (8 - total_size' mod 8)) of
                             Inl e \<Rightarrow> (Inl e, (free h2 (m_buf v1), r2))
                           | Inr r3 \<Rightarrow> (Inr v1, (h2, r3))))))"

text \<open>
  \<open>map\<close> and \<open>read\<close> build a temporary with the constructor and swap it in; the
  temporary's destructor releases the buffer that was this vector's.
\<close>

definition Vector_map ::
  "64 word \<Rightarrow> Mapper \<Rightarrow> heap \<times> Vector \<Rightarrow> error option \<times> (heap \<times> Vector) \<times> Mapper" where
  "Vector_map sz mapper s =
     (let (h, v) = s in
      case Vector_of_Mapper sz h mapper of
        (Inl e, m') \<Rightarrow> (Some e, (s, m'))
      | (Inr temp, m') \<Rightarrow>
          (let (v', temp') = Vector_swap (v, temp)
           in (None, ((free h (m_buf temp'), v'), m'))))"

definition Vector_read ::
  "64 word \<Rightarrow> Reader \<Rightarrow> heap \<times> Vector \<Rightarrow> error option \<times> (heap \<times> Vector) \<times> Reader" where
  "Vector_read sz reader s =
     (let (h, v) = s in
      case Vector_of_Reader sz h reader of
        (Inl e, (h', r')) \<Rightarrow> (Some e, ((h', v), r'))
      | (Inr temp, (h', r')) \<Rightarrow>
          (let (v', temp') = Vector_swap (v, temp)
           in (None, ((free h' (m_buf temp'), v'), r'))))"

text \<open>
  \<open>write\<close>: the size prefix, the elements, then \<open>writer.seek(8 - total_size() % 8)\<close>.
\<close>

definition Vector_write ::
  "64 word \<Rightarrow> heap \<Rightarrow> Vector \<Rightarrow> Writer \<Rightarrow> error option \<times> Writer" where
  "Vector_write sz h v writer =
     (let w1 = Writer_write_u64 writer (total_size sz v) in
      case Writer_write_objs h w1 (m_const_objs v) (unat (m_size v) * unat sz) of
        Inl e \<Rightarrow> (Some e, w1)
      | Inr w2 \<Rightarrow> (None, Writer_seek w2 (unat (8 - total_size sz v mod 8))))"

subsection \<open>Well-formed vectors, element contents and sequences of calls\<close>

text \<open>
  The states a vector can be in. An owned vector has no buffer at all (the state after
  default construction: null pointers, size and capacity 0), or \<open>buf_\<close> is a live block
  of \<open>sizeof(T) * capacity_\<close> bytes, \<open>const_objs_\<close> points to its start and
  \<open>size_ \<le> capacity_ \<le> max_size()\<close>. A borrowed vector has no buffer and
  \<open>const_objs_\<close> points into a live block that holds at least \<open>size_\<close> elements from
  there on.
\<close>

definition owned :: "64 word \<Rightarrow> heap \<Rightarrow> Vector \<Rightarrow> bool" where
  "owned sz h v \<longleftrightarrow>
     m_size v \<le> m_capacity v \<and> m_capacity v \<le> max_size sz \<and>
     (case m_buf v of
        None \<Rightarrow> m_const_objs v = None \<and> m_capacity v = 0
      | Some b \<Rightarrow>
          m_const_objs v = Some (b, 0) \<and>
          (case block h b of
             None \<Rightarrow> False
           | Some bs \<Rightarrow> length bs = unat sz * unat (m_capacity v)))"

definition borrowed :: "64 word \<Rightarrow> heap \<Rightarrow> Vector \<Rightarrow> bool" where
  "borrowed sz h v \<longleftrightarrow>
     m_buf v = None \<and> m_size v \<le> max_size sz \<and>
     (case m_const_objs v of
        None \<Rightarrow> False
      | Some (b, off) \<Rightarrow>
          (case block h b of
             None \<Rightarrow> False
           | Some bs \<Rightarrow> off + unat sz * unat (m_size v) \<le> length bs))"

definition well_formed :: "64 word \<Rightarrow> heap \<Rightarrow> Vector \<Rightarrow> bool" where
  "well_formed sz h v \<longleftrightarrow> owned sz h v \<or> borrowed sz h v"

text \<open>
  The bytes of all the elements, in order, as \<open>const_objs_\<close> and \<open>size_\<close> delimit
  them: what \<open>operator[]\<close> reads from, one slice per index.
\<close>

definition contents :: "64 word \<Rightarrow> heap \<Rightarrow> Vector \<Rightarrow> byte list option" where
  "contents sz h v = load h (m_const_objs v) (unat (m_size v) * unat sz)"

text \<open>A caller's sequence of mutating calls; it ends at the first call that fails.\<close>

datatype call =
    PushBack "byte list"
  | PopBack
  | Resize "64 word"
  | ResizeFill "64 word" "byte list"
  | Reserve "64 word"
  | Shrink

fun perform :: "64 word \<Rightarrow> call \<Rightarrow> heap \<times> Vector \<Rightarrow> error option \<times> heap \<times> Vector" where
  "perform sz (PushBack x) s = push_back sz x s"
| "perform sz PopBack s = pop_back s"
| "perform sz (Resize n) s = resize sz n s"
| "perform sz (ResizeFill n x) s = resize_fill sz n x s"
| "perform sz (Reserve n) s = reserve sz n s"
| "perform sz Shrink s = shrink sz s"

fun perform_all ::
  "64 word \<Rightarrow> call list \<Rightarrow> heap \<times> Vector \<Rightarrow> error option \<times> heap \<times> Vector" where
  "perform_all sz [] s = (None, s)"
| "perform_all sz (c # cs) s =
     (case perform sz c s of
        (Some e, s') \<Rightarrow> (Some e, s')
      | (None, s') \<Rightarrow> perform_all sz cs s')"

text \<open>The element arguments of a call are values of \<open>T\<close>: \<open>sizeof(T)\<close> bytes each.\<close>

fun typed :: "64 word \<Rightarrow> call \<Rightarrow> bool" where
  "typed sz (PushBack x) \<longleftrightarrow> length x = unat sz"
| "typed sz (ResizeFill n x) \<longleftrightarrow> length x = unat sz"
| "typed sz c \<longleftrightarrow> True"

section \<open>Properties of the configuration parser\<close>

lemma parse_cache_level_cases:
  "parse_cache_level c f cfg = Inl InvalidArgument \<or>
   parse_cache_level c f cfg = Inr cfg \<or>
   parse_cache_level c f cfg = Inr (cfg\<lparr>m_flags := m_flags cfg OR MARISA_DEFAULT_CACHE c\<rparr>)"
  by (simp add: parse_cache_level_def Let_def)

lemma parse_tail_mode_cases:
  "parse_tail_mode c f cfg = Inl InvalidArgument \<or>
   parse_tail_mode c f cfg = Inr cfg \<or>
   parse_tail_mode c f cfg = Inr (cfg\<lparr>m_flags := m_flags cfg OR MARISA_DEFAULT_TAIL c\<rparr>)"
  by (simp add: parse_tail_mode_def Let_def)

lemma parse_node_order_cases:
  "parse_node_order c f cfg = Inl InvalidArgument \<or>
   parse_node_order c f cfg = Inr cfg \<or>
   parse_node_order c f cfg = Inr (cfg\<lparr>m_flags := m_flags cfg OR MARISA_DEFAULT_ORDER c\<rparr>)"
  by (simp add: parse_node_order_def Let_def)

lemma default_absorbs_cache:
  "m_flags (Config_default c) OR MARISA_DEFAULT_CACHE c = m_flags (Config_default c)"
  by (simp add: Config_default_def ac_simps)

lemma default_absorbs_tail:
  "m_flags (Config_default c) OR MARISA_DEFAULT_TAIL c = m_flags (Config_default c)"
  by (simp add: Config_default_def ac_simps)

lemma default_absorbs_order:
  "m_flags (Config_default c) OR MARISA_DEFAULT_ORDER c = m_flags (Config_default c)"
  by (simp add: Config_default_def ac_simps)

text \<open>
  Whatever the flags and whatever the enumerators: a successful \<open>parse\<close> on a fresh
  \<open>Config\<close> leaves exactly the default flags in the object. No branch of the parser
  stores a bit of its argument.
\<close>

lemma parse_fresh_is_default:
  assumes "parse c f (Config_default c) = Inr cfg"
  shows "cfg = Config_default c"
proof -
  let ?d = "Config_default c"
  have d1: "?d\<lparr>m_flags := m_flags ?d OR MARISA_DEFAULT_CACHE c\<rparr> = ?d"
    by (simp add: default_absorbs_cache)
  have d2: "?d\<lparr>m_flags := m_flags ?d OR MARISA_DEFAULT_TAIL c\<rparr> = ?d"
    by (simp add: default_absorbs_tail)
  have d3: "?d\<lparr>m_flags := m_flags ?d OR MARISA_DEFAULT_ORDER c\<rparr> = ?d"
    by (simp add: default_absorbs_order)
  have c1: "parse_cache_level c f ?d = Inl InvalidArgument \<or> parse_cache_level c f ?d = Inr ?d"
    using parse_cache_level_cases [of c f ?d] d1 by auto
  have c2: "parse_tail_mode c f ?d = Inl InvalidArgument \<or> parse_tail_mode c f ?d = Inr ?d"
    using parse_tail_mode_cases [of c f ?d] d2 by auto
  have c3: "parse_node_order c f ?d = Inl InvalidArgument \<or> parse_node_order c f ?d = Inr ?d"
    using parse_node_order_cases [of c f ?d] d3 by auto
  from assms c1 c2 c3 show ?thesis
    by (auto simp: parse_def parse_num_tries_def split: if_splits sum.splits)
qed

lemma parse_fails_iff:
  "parse c f cfg = Inl InvalidArgument \<longleftrightarrow>
     (f AND NOT (MARISA_CONFIG_MASK c) \<noteq> 0
      \<or> f AND MARISA_CACHE_LEVEL_MASK c \<notin>
           {0, MARISA_HUGE_CACHE c, MARISA_LARGE_CACHE c, MARISA_NORMAL_CACHE c,
            MARISA_SMALL_CACHE c, MARISA_TINY_CACHE c}
      \<or> f AND MARISA_TAIL_MODE_MASK c \<notin> {0, MARISA_TEXT_TAIL c, MARISA_BINARY_TAIL c}
      \<or> f AND MARISA_NODE_ORDER_MASK c \<notin> {0, MARISA_LABEL_ORDER c, MARISA_WEIGHT_ORDER c})"
  by (simp add: parse_def parse_num_tries_def parse_cache_level_def parse_tail_mode_def
      parse_node_order_def Let_def)

lemma parse_error_kind: "parse c f cfg = Inl e \<Longrightarrow> e = InvalidArgument"
  by (auto simp: parse_def parse_num_tries_def parse_cache_level_def parse_tail_mode_def
      parse_node_order_def Let_def split: if_splits)

text \<open>
  C1 (the accessors report the requested group values). On a fresh \<open>Config\<close> the flags
  \<open>5 | tiny cache | text tail | label order\<close> are valid and \<open>parse\<close> succeeds, but the
  accessors then report 3 tries, the normal cache, the binary tail and the weight order:
  the defaults, not the values that were asked for.
\<close>

theorem C1_accessors_report_defaults_not_request:
  "(case Config_of_flags marisa_base
           (5 OR MARISA_TINY_CACHE marisa_base OR MARISA_TEXT_TAIL marisa_base
              OR MARISA_LABEL_ORDER marisa_base) of
      Inl e \<Rightarrow> False
    | Inr cfg \<Rightarrow>
        num_tries marisa_base cfg = 3
        \<and> cache_level marisa_base cfg = MARISA_NORMAL_CACHE marisa_base
        \<and> tail_mode marisa_base cfg = MARISA_BINARY_TAIL marisa_base
        \<and> node_order marisa_base cfg = MARISA_WEIGHT_ORDER marisa_base)"
  by (simp add: Config_of_flags_def parse_def parse_num_tries_def parse_cache_level_def
      parse_tail_mode_def parse_node_order_def Config_default_def marisa_base_def
      num_tries_def cache_level_def tail_mode_def node_order_def Let_def)

text \<open>
  C2, as stated, fails at the flags value 0: its \<open>num_tries\<close> field is 0, which the
  claim calls invalid, and \<open>parse\<close> accepts it.
\<close>

theorem C2_zero_num_tries_is_accepted:
  "(0 :: 32 word) AND MARISA_NUM_TRIES_MASK marisa_base = 0
   \<and> parse marisa_base 0 (Config_default marisa_base) = Inr (Config_default marisa_base)"
  by (simp add: parse_def parse_num_tries_def parse_cache_level_def
      parse_tail_mode_def parse_node_order_def Config_default_def marisa_base_def Let_def)

text \<open>
  C2, amended: \<open>parse\<close> fails, with an invalid-argument error, if and only if the flags
  have a bit outside the configuration mask or the cache-level, tail-mode or node-order
  field holds a value that is neither 0 nor one of the recognised values of its group;
  in every other case it succeeds. The \<open>num_tries\<close> field is never a reason to fail:
  the value 0 is accepted.
\<close>

theorem C2_parse_fails_iff_unknown_bits_or_group:
  "(parse c f cfg = Inl InvalidArgument \<longleftrightarrow>
     (f AND NOT (MARISA_CONFIG_MASK c) \<noteq> 0
      \<or> f AND MARISA_CACHE_LEVEL_MASK c \<notin>
           {0, MARISA_HUGE_CACHE c, MARISA_LARGE_CACHE c, MARISA_NORMAL_CACHE c,
            MARISA_SMALL_CACHE c, MARISA_TINY_CACHE c}
      \<or> f AND MARISA_TAIL_MODE_MASK c \<notin> {0, MARISA_TEXT_TAIL c, MARISA_BINARY_TAIL c}
      \<or> f AND MARISA_NODE_ORDER_MASK c \<notin> {0, MARISA_LABEL_ORDER c, MARISA_WEIGHT_ORDER c}))
   \<and> (parse c f cfg \<noteq> Inl InvalidArgument \<longrightarrow> (\<exists>cfg'. parse c f cfg = Inr cfg'))"
proof (intro conjI impI)
  show "parse c f cfg = Inl InvalidArgument \<longleftrightarrow>
     (f AND NOT (MARISA_CONFIG_MASK c) \<noteq> 0
      \<or> f AND MARISA_CACHE_LEVEL_MASK c \<notin>
           {0, MARISA_HUGE_CACHE c, MARISA_LARGE_CACHE c, MARISA_NORMAL_CACHE c,
            MARISA_SMALL_CACHE c, MARISA_TINY_CACHE c}
      \<or> f AND MARISA_TAIL_MODE_MASK c \<notin> {0, MARISA_TEXT_TAIL c, MARISA_BINARY_TAIL c}
      \<or> f AND MARISA_NODE_ORDER_MASK c \<notin> {0, MARISA_LABEL_ORDER c, MARISA_WEIGHT_ORDER c})"
    by (rule parse_fails_iff)
next
  assume ne: "parse c f cfg \<noteq> Inl InvalidArgument"
  show "\<exists>cfg'. parse c f cfg = Inr cfg'"
  proof (cases "parse c f cfg")
    case (Inl e)
    with parse_error_kind [of c f cfg e] ne show ?thesis by simp
  next
    case (Inr cfg')
    then show ?thesis by blast
  qed
qed

theorem C2_parse_fails_iff_witness:
  "parse marisa_base 0x100000 (Config_default marisa_base) = Inl InvalidArgument
   \<and> parse marisa_base 0x4000 (Config_default marisa_base) = Inl InvalidArgument
   \<and> (\<exists>cfg'. parse marisa_base 0x11805 (Config_default marisa_base) = Inr cfg')"
proof (intro conjI)
  let ?d = "Config_default marisa_base"
  have "(0x100000 :: 32 word) AND NOT (MARISA_CONFIG_MASK marisa_base) \<noteq> 0"
    by (simp add: marisa_base_def)
  then show "parse marisa_base 0x100000 ?d = Inl InvalidArgument"
    using C2_parse_fails_iff_unknown_bits_or_group [of marisa_base "0x100000" ?d] by blast
  have "(0x4000 :: 32 word) AND MARISA_TAIL_MODE_MASK marisa_base \<notin>
          {0, MARISA_TEXT_TAIL marisa_base, MARISA_BINARY_TAIL marisa_base}"
    by (simp add: marisa_base_def)
  then show "parse marisa_base 0x4000 ?d = Inl InvalidArgument"
    using C2_parse_fails_iff_unknown_bits_or_group [of marisa_base "0x4000" ?d] by blast
  have "\<not> ((0x11805 :: 32 word) AND NOT (MARISA_CONFIG_MASK marisa_base) \<noteq> 0
      \<or> 0x11805 AND MARISA_CACHE_LEVEL_MASK marisa_base \<notin>
           {0, MARISA_HUGE_CACHE marisa_base, MARISA_LARGE_CACHE marisa_base,
            MARISA_NORMAL_CACHE marisa_base, MARISA_SMALL_CACHE marisa_base,
            MARISA_TINY_CACHE marisa_base}
      \<or> 0x11805 AND MARISA_TAIL_MODE_MASK marisa_base \<notin>
           {0, MARISA_TEXT_TAIL marisa_base, MARISA_BINARY_TAIL marisa_base}
      \<or> 0x11805 AND MARISA_NODE_ORDER_MASK marisa_base \<notin>
           {0, MARISA_LABEL_ORDER marisa_base, MARISA_WEIGHT_ORDER marisa_base})"
    by (simp add: marisa_base_def)
  then show "\<exists>cfg'. parse marisa_base 0x11805 ?d = Inr cfg'"
    using C2_parse_fails_iff_unknown_bits_or_group [of marisa_base "0x11805" ?d] by blast
qed

section \<open>Properties of the container's entry points\<close>

lemma read_and_swap_failure: "read_and_swap g s t = (Some e, t') \<Longrightarrow> t' = t"
  by (auto simp: read_and_swap_def Let_def split: sum.splits)

lemma map_and_swap_failure: "map_and_swap g s t = (Some e, t') \<Longrightarrow> t' = t"
  by (auto simp: map_and_swap_def Let_def split: sum.splits)

lemma build_failure: "build g keyset config_flags t = (Some e, t') \<Longrightarrow> t' = t"
  by (auto simp: build_def split: sum.splits)

lemma TrieIO_fread_failure: "TrieIO_fread g file trie = (Some e, trie') \<Longrightarrow> trie' = trie"
  by (auto simp: TrieIO_fread_def split: option.splits prod.splits
      dest: read_and_swap_failure)

lemma TrieIO_read_failure: "TrieIO_read g stream trie = (Some e, trie') \<Longrightarrow> trie' = trie"
  by (auto simp: TrieIO_read_def split: option.splits prod.splits
      dest: read_and_swap_failure)

lemma fread_failure: "fread g file trie = (Some e, trie') \<Longrightarrow> trie' = trie"
  by (auto simp: fread_def split: if_splits dest: TrieIO_fread_failure)

lemma read_failure: "read g stream trie = (Some e, trie') \<Longrightarrow> trie' = trie"
  by (auto simp: read_def split: if_splits dest: TrieIO_read_failure)

lemma stream_extract_failure: "stream_extract g stream t = (Some e, t') \<Longrightarrow> t' = t"
  by (auto simp: stream_extract_def split: prod.splits option.splits dest: read_failure)

lemma TrieSerializer_load_failure:
  "TrieSerializer_load g fname t = (Some e, t') \<Longrightarrow> t' = t"
  by (auto simp: TrieSerializer_load_def split: option.splits dest: read_and_swap_failure)

lemma TrieSerializer_read_failure:
  "TrieSerializer_read g d t = (Some e, t') \<Longrightarrow> t' = t"
  by (auto simp: TrieSerializer_read_def split: if_splits dest: read_and_swap_failure)

lemma TrieSerializer_map_failure:
  "TrieSerializer_map g ptr n t = (Some e, t') \<Longrightarrow> t' = t"
  by (auto simp: TrieSerializer_map_def split: if_splits dest: map_and_swap_failure)

lemma TrieSerializer_mmap_failure:
  "TrieSerializer_mmap g fname fl t = (Some e, t') \<Longrightarrow> t' = t"
  by (auto simp: TrieSerializer_mmap_def split: option.splits dest: map_and_swap_failure)

lemma build_success:
  "build g keyset config_flags t = (None, t') \<Longrightarrow>
     \<exists>lt. LoudsTrie_of_keyset g keyset config_flags = Inr lt \<and> m_trie t' = Some lt"
  by (auto simp: build_def split: sum.splits)

text \<open>
  C3 (a failed call publishes nothing). Whatever the collaborators do: when \<open>build\<close>,
  \<open>fread\<close>, \<open>read\<close>, \<open>TrieSerializer::load\<close>, \<open>TrieSerializer::map\<close> or
  \<open>TrieSerializer::mmap\<close> ends with an exception, the trie is the object it was before
  the call, so every query (\<open>num_keys\<close> and the searches are instances of \<open>q\<close>)
  answers as before; and a \<open>build\<close> that returns normally has published the freshly
  constructed \<open>LoudsTrie\<close>.
\<close>

theorem C3_failed_call_leaves_trie_unchanged:
  "(build g keyset config_flags t = (Some e, t') \<longrightarrow> t' = t \<and> query q t' = query q t)
   \<and> (fread g file trie = (Some e, trie') \<longrightarrow> trie' = trie)
   \<and> (read g stream trie = (Some e, trie') \<longrightarrow> trie' = trie)
   \<and> (TrieSerializer_load g fname t = (Some e, t') \<longrightarrow> t' = t \<and> query q t' = query q t)
   \<and> (TrieSerializer_map g ptr n t = (Some e, t') \<longrightarrow> t' = t \<and> query q t' = query q t)
   \<and> (TrieSerializer_mmap g fname fl t = (Some e, t') \<longrightarrow> t' = t \<and> query q t' = query q t)
   \<and> (build g keyset config_flags t = (None, t') \<longrightarrow>
        (\<exists>lt. LoudsTrie_of_keyset g keyset config_flags = Inr lt \<and> m_trie t' = Some lt))"
proof (intro conjI impI)
  assume "build g keyset config_flags t = (Some e, t')"
  then show "t' = t" by (rule build_failure)
  then show "query q t' = query q t" by simp
next
  assume "fread g file trie = (Some e, trie')"
  then show "trie' = trie" by (rule fread_failure)
next
  assume "read g stream trie = (Some e, trie')"
  then show "trie' = trie" by (rule read_failure)
next
  assume "TrieSerializer_load g fname t = (Some e, t')"
  then show "t' = t" by (rule TrieSerializer_load_failure)
  then show "query q t' = query q t" by simp
next
  assume "TrieSerializer_map g ptr n t = (Some e, t')"
  then show "t' = t" by (rule TrieSerializer_map_failure)
  then show "query q t' = query q t" by simp
next
  assume "TrieSerializer_mmap g fname fl t = (Some e, t')"
  then show "t' = t" by (rule TrieSerializer_mmap_failure)
  then show "query q t' = query q t" by simp
next
  assume "build g keyset config_flags t = (None, t')"
  then show "\<exists>lt. LoudsTrie_of_keyset g keyset config_flags = Inr lt \<and> m_trie t' = Some lt"
    by (rule build_success)
qed

lemma toy_build_fails:
  "build toy [''k''] 0x100000 \<lparr>m_trie = Some [''old'']\<rparr>
     = (Some InvalidArgument, \<lparr>m_trie = Some [''old'']\<rparr>)"
  by (simp add: build_def toy_def)

lemma toy_build_succeeds:
  "build toy [''k''] 0 \<lparr>m_trie = Some [''old'']\<rparr> = (None, \<lparr>m_trie = Some [''k'']\<rparr>)"
  by (simp add: build_def toy_def)

lemma toy_fread_fails:
  "fread toy (Some 1) (Some \<lparr>m_trie = Some [''old'']\<rparr>)
     = (Some IoError, Some \<lparr>m_trie = Some [''old'']\<rparr>)"
  by (simp add: fread_def TrieIO_fread_def read_and_swap_def toy_def)

lemma toy_read_fails:
  "read toy 0 (Some \<lparr>m_trie = Some [''old'']\<rparr>)
     = (Some IoError, Some \<lparr>m_trie = Some [''old'']\<rparr>)"
  by (simp add: read_def TrieIO_read_def read_and_swap_def toy_def)

lemma toy_load_fails:
  "TrieSerializer_load toy (Some ''nope'') \<lparr>m_trie = Some [''old'']\<rparr>
     = (Some IoError, \<lparr>m_trie = Some [''old'']\<rparr>)"
  by (simp add: TrieSerializer_load_def read_and_swap_def toy_def)

lemma toy_map_fails:
  "TrieSerializer_map toy None 5 \<lparr>m_trie = Some [''old'']\<rparr>
     = (Some InvalidArgument, \<lparr>m_trie = Some [''old'']\<rparr>)"
  by (simp add: TrieSerializer_map_def)

lemma toy_mmap_fails:
  "TrieSerializer_mmap toy (Some ''nope'') 0 \<lparr>m_trie = Some [''old'']\<rparr>
     = (Some IoError, \<lparr>m_trie = Some [''old'']\<rparr>)"
  by (simp add: TrieSerializer_mmap_def map_and_swap_def toy_def)

theorem C3_failed_call_witness:
  "fst (build toy [''k''] 0x100000 \<lparr>m_trie = Some [''old'']\<rparr>) = Some InvalidArgument
   \<and> query length (snd (build toy [''k''] 0x100000 \<lparr>m_trie = Some [''old'']\<rparr>))
       = query length \<lparr>m_trie = Some [''old'']\<rparr>
   \<and> fst (TrieSerializer_load toy (Some ''nope'') \<lparr>m_trie = Some [''old'']\<rparr>) = Some IoError
   \<and> query length (snd (TrieSerializer_load toy (Some ''nope'') \<lparr>m_trie = Some [''old'']\<rparr>))
       = Inr 1
   \<and> (\<exists>lt. LoudsTrie_of_keyset toy [''k''] 0 = Inr lt
          \<and> m_trie (snd (build toy [''k''] 0 \<lparr>m_trie = Some [''old'']\<rparr>)) = Some lt)"
proof -
  let ?t = "\<lparr>m_trie = Some [''old'']\<rparr> :: string list Trie"
  have b: "query length ?t = query length ?t"
    using C3_failed_call_leaves_trie_unchanged
      [where g = toy and keyset = "[''k'']" and config_flags = "0x100000" and t = ?t
         and e = InvalidArgument and t' = ?t and q = length]
      toy_build_fails by blast
  have l: "query length ?t = query length ?t"
    using C3_failed_call_leaves_trie_unchanged
      [where g = toy and t = ?t and e = IoError and t' = ?t and q = length
         and fname = "Some ''nope''"]
      toy_load_fails by blast
  have s: "\<exists>lt. LoudsTrie_of_keyset toy [''k''] 0 = Inr lt
      \<and> m_trie \<lparr>m_trie = Some [''k'']\<rparr> = Some lt"
    using C3_failed_call_leaves_trie_unchanged
      [where g = toy and keyset = "[''k'']" and config_flags = 0 and t = ?t
         and t' = "\<lparr>m_trie = Some [''k'']\<rparr>"]
      toy_build_succeeds by blast
  have q: "query length ?t = Inr 1"
    by (simp add: query_def)
  show ?thesis
    using b l s q by (simp add: toy_build_fails toy_load_fails toy_build_succeeds)
qed

text \<open>
  C10 (\<open>TrieSerializer::map\<close> and the null pointer). A null pointer with a size other
  than 0 is rejected with an invalid-argument error before any collaborator is called,
  and the trie is left as it was. A null pointer with size 0 passes the argument check:
  the result of the call is then whatever \<open>Mapper::open\<close> and \<open>LoudsTrie::map\<close> make
  of the empty region: their exception if one of them throws, and a successful call
  that publishes the mapped \<open>LoudsTrie\<close> if they accept it.
\<close>

theorem C10_map_rejects_null_only_with_nonzero_size:
  "(n \<noteq> 0 \<longrightarrow> TrieSerializer_map g None n t = (Some InvalidArgument, t))
   \<and> (Mapper_open g (memory None 0) = Inl e \<longrightarrow>
        TrieSerializer_map g None 0 t = (Some e, t))
   \<and> (Mapper_open g (memory None 0) = Inr mapper
        \<and> LoudsTrie_map g mapper (LoudsTrie_new g) = Inl e \<longrightarrow>
        TrieSerializer_map g None 0 t = (Some e, t))
   \<and> (Mapper_open g (memory None 0) = Inr mapper
        \<and> LoudsTrie_map g mapper (LoudsTrie_new g) = Inr lt \<longrightarrow>
        TrieSerializer_map g None 0 t = (None, t\<lparr>m_trie := Some lt\<rparr>))"
  by (simp add: TrieSerializer_map_def map_and_swap_def)

theorem C10_map_null_witness:
  "TrieSerializer_map toy None 5 \<lparr>m_trie = Some [''old'']\<rparr>
     = (Some InvalidArgument, \<lparr>m_trie = Some [''old'']\<rparr>)
   \<and> Mapper_open toy (memory None 0) = Inr []
   \<and> LoudsTrie_map toy [] (LoudsTrie_new toy) = Inr []
   \<and> TrieSerializer_map toy None 0 \<lparr>m_trie = Some [''old'']\<rparr>
     = (None, \<lparr>m_trie = Some []\<rparr>)"
proof -
  let ?t = "\<lparr>m_trie = Some [''old'']\<rparr> :: string list Trie"
  have m: "Mapper_open toy (memory None 0) = Inr []"
    by (simp add: toy_def)
  have l: "LoudsTrie_map toy [] (LoudsTrie_new toy) = Inr []"
    by (simp add: toy_def)
  have five: "(5 :: 64 word) \<noteq> 0"
    by simp
  have r: "TrieSerializer_map toy None 5 ?t = (Some InvalidArgument, ?t)"
    using C10_map_rejects_null_only_with_nonzero_size [where n = 5 and g = toy and t = ?t] five
    by blast
  have a: "TrieSerializer_map toy None 0 ?t = (None, ?t\<lparr>m_trie := Some []\<rparr>)"
    using C10_map_rejects_null_only_with_nonzero_size [where g = toy and t = ?t and mapper = "[]" and lt = "[]"] m l
    by blast
  show ?thesis
    using r a m l by simp
qed

section \<open>Properties of the vector\<close>

subsection \<open>Sizes do not overflow\<close>

lemma unat_max_size: "unat (max_size sz) = (2 ^ 64 - 1) div unat sz"
  by (simp add: max_size_def unat_div unsigned_minus_1_eq_mask mask_eq_exp_minus_1)

lemma mult_no_overflow:
  assumes "sz \<noteq> 0" "n \<le> max_size sz"
  shows "unat sz * unat n < 2 ^ 64"
proof -
  have "unat n \<le> (2 ^ 64 - 1) div unat sz"
    using assms(2) by (simp add: word_le_nat_alt unat_max_size)
  then have "unat n * unat sz \<le> ((2 ^ 64 - 1) div unat sz) * unat sz"
    by (rule mult_le_mono1)
  also have "\<dots> \<le> 2 ^ 64 - 1"
    by (rule div_times_less_eq_dividend)
  finally show ?thesis by (simp add: mult.commute)
qed

lemma unat_mult_sz:
  assumes "sz \<noteq> 0" "n \<le> max_size sz"
  shows "unat (sz * n) = unat sz * unat n"
  using mult_no_overflow [OF assms] unat_mult_lem [of sz n] by simp

lemma unat_sub_le: "(a :: 64 word) \<le> b \<Longrightarrow> unat (b - a) = unat b - unat a"
  by (simp add: unat_sub)

lemma sub_le_max_size: "(a :: 64 word) \<le> b \<Longrightarrow> b \<le> max_size sz \<Longrightarrow> b - a \<le> max_size sz"
  by (meson order_trans word_sub_le)

subsection \<open>Blocks, loads and stores\<close>

lemma block_less: "block h b = Some bs \<Longrightarrow> b < length h"
  by (simp add: block_def split: if_splits)

lemma block_append_old: "b < length h \<Longrightarrow> block (h @ xs) b = block h b"
  by (simp add: block_def nth_append)

lemma block_append_new: "block (h @ [x]) (length h) = x"
  by (simp add: block_def)

lemma block_update:
  "b < length h \<Longrightarrow> block (h[b := x]) b' = (if b' = b then x else block h b')"
  by (simp add: block_def)

lemma load_length: "load h p n = Some xs \<Longrightarrow> length xs = n"
  by (auto simp: load_def split: if_splits option.splits prod.splits)

lemma load_block:
  "block h b = Some bs \<Longrightarrow> off + n \<le> length bs \<Longrightarrow>
     load h (Some (b, off)) n = Some (take n (drop off bs))"
  by (simp add: load_def)

lemma load_sub:
  assumes "load h p n = Some xs" "k + m \<le> n"
  shows "load h (ptr_add p k) m = Some (take m (drop k xs))"
proof (cases "m = 0")
  case True
  then show ?thesis by (simp add: load_def)
next
  case False
  with assms(2) have n: "n \<noteq> 0" by simp
  from assms(1) n obtain b off bs where p: "p = Some (b, off)"
    and bl: "block h b = Some bs" and le: "off + n \<le> length bs"
    and xs: "xs = take n (drop off bs)"
    by (auto simp: load_def split: if_splits option.splits prod.splits)
  have "take m (drop k (take n (drop off bs))) = take m (drop (off + k) bs)"
    using assms(2) by (simp add: drop_take min_def add.commute)
  then show ?thesis
    using False p bl le assms(2) xs by (simp add: load_def ptr_add_def)
qed

lemma store_bytes_block:
  assumes "block h b = Some bs" "off + length xs \<le> length bs"
  shows "\<exists>h'. store_bytes h (Some (b, off)) xs = Some h' \<and> length h' = length h
           \<and> block h' b = Some (take off bs @ xs @ drop (off + length xs) bs)
           \<and> (\<forall>b'. b' \<noteq> b \<longrightarrow> block h' b' = block h b')"
proof (cases "xs = []")
  case True
  then show ?thesis using assms by (simp add: store_bytes_def)
next
  case False
  then show ?thesis
    using assms block_less [OF assms(1)] by (simp add: store_bytes_def block_def)
qed

lemma length_free: "length (free h p) = length h"
  by (simp add: free_def split: option.splits)

lemma block_free: "p \<noteq> Some b \<Longrightarrow> block (free h p) b = block h b"
  by (auto simp: free_def block_def split: option.splits)

lemma block_free_self: "block (free h (Some b)) b = None"
  by (simp add: free_def block_def)

subsection \<open>Reallocation\<close>

lemma contents_owned:
  assumes "sz \<noteq> 0" "owned sz h v"
  shows "\<exists>xs. contents sz h v = Some xs \<and> length xs = unat (m_size v) * unat sz"
proof (cases "m_buf v")
  case None
  with assms(2) have "m_size v = 0"
    by (auto simp: owned_def)
  then show ?thesis by (simp add: contents_def load_def)
next
  case (Some b)
  with assms(2) obtain bs where c: "m_const_objs v = Some (b, 0)"
    and bl: "block h b = Some bs" and len: "length bs = unat sz * unat (m_capacity v)"
    and le: "m_size v \<le> m_capacity v"
    by (auto simp: owned_def split: option.splits)
  have "unat (m_size v) * unat sz \<le> length bs"
    using le len by (simp add: word_le_nat_alt mult.commute)
  then show ?thesis
    using c bl by (simp add: contents_def load_block)
qed

lemma realloc_owned:
  assumes sz: "sz \<noteq> 0" and ow: "owned sz h v" and lo: "m_size v \<le> n" and hi: "n \<le> max_size sz"
    and cs: "contents sz h v = Some xs"
  shows "\<exists>h'. realloc sz n (h, v) =
           (None, (h', v\<lparr>m_buf := Some (length h), m_const_objs := Some (length h, 0),
                         m_capacity := n\<rparr>))
         \<and> length h' = Suc (length h)
         \<and> block h' (length h) =
             Some (xs @ replicate ((unat n - unat (m_size v)) * unat sz) 0)
         \<and> (\<forall>b. b < length h \<and> Some b \<noteq> m_buf v \<longrightarrow> block h' b = block h b)"
proof -
  let ?k = "unat (m_size v) * unat sz"
  let ?h1 = "h @ [Some (replicate (unat (sz * n)) 0)]"
  have lxs: "length xs = ?k" using cs by (simp add: contents_def load_length)
  have tot: "unat (sz * n) = unat sz * unat n" by (rule unat_mult_sz [OF sz hi])
  have rest: "unat ((n - m_size v) * sz) = (unat n - unat (m_size v)) * unat sz"
    using unat_mult_sz [OF sz sub_le_max_size [OF lo hi]] unat_sub_le [OF lo]
    by (simp add: mult.commute)
  have kle: "?k \<le> unat sz * unat n"
    using lo by (simp add: word_le_nat_alt mult.commute)
  have split: "?k + (unat n - unat (m_size v)) * unat sz = unat sz * unat n"
    using lo by (simp add: word_le_nat_alt mult.commute diff_mult_distrib2 [symmetric] add_mult_distrib2 [symmetric])
  have ld: "load ?h1 (objs v) ?k = Some xs"
  proof (cases "m_buf v")
    case None
    with ow have "m_size v = 0" by (auto simp: owned_def)
    with cs show ?thesis by (simp add: load_def contents_def)
  next
    case (Some b)
    with ow obtain bs where c: "m_const_objs v = Some (b, 0)" and bl: "block h b = Some bs"
      by (auto simp: owned_def split: option.splits)
    have "block ?h1 b = Some bs" using bl block_less [OF bl] by (simp add: block_append_old)
    then show ?thesis using cs c bl Some
      by (auto simp: contents_def load_def objs_def split: if_splits)
  qed
  have bl1: "block ?h1 (length h) = Some (replicate (unat sz * unat n) 0)"
    using tot by (simp add: block_append_new)
  from store_bytes_block [OF bl1, of 0 xs] lxs kle
  obtain h2 where st2: "store_bytes ?h1 (Some (length h, 0)) xs = Some h2"
    and len2: "length h2 = length ?h1"
    and bl2: "block h2 (length h) = Some (xs @ replicate (unat sz * unat n - ?k) 0)"
    and oth2: "\<forall>b'. b' \<noteq> length h \<longrightarrow> block h2 b' = block ?h1 b'"
    by auto
  have cp: "copy_n ?h1 (objs v) ?k (Some (length h, 0)) = Some h2"
    using ld st2 by (simp add: copy_n_def)
  let ?r = "(unat n - unat (m_size v)) * unat sz"
  have rr: "unat sz * unat n - ?k = ?r" using split by simp
  from store_bytes_block [OF bl2, of ?k "replicate ?r 0"] lxs rr
  obtain h3 where st3: "store_bytes h2 (Some (length h, ?k)) (replicate ?r 0) = Some h3"
    and len3: "length h3 = length h2"
    and bl3: "block h3 (length h) = Some (xs @ replicate ?r 0)"
    and oth3: "\<forall>b'. b' \<noteq> length h \<longrightarrow> block h3 b' = block h2 b'"
    by auto
  have ms: "memset0 h2 (elem_ptr sz (Some (length h, 0)) (m_size v))
              (unat ((n - m_size v) * sz)) = Some h3"
    using st3 rest by (simp add: memset0_def elem_ptr_def ptr_add_def)
  have nb: "m_buf v \<noteq> Some (length h)"
  proof
    assume "m_buf v = Some (length h)"
    with ow have "block h (length h) \<noteq> None" by (auto simp: owned_def split: option.splits)
    then show False by (simp add: block_def)
  qed
  have re: "realloc sz n (h, v) =
      (None, (free h3 (m_buf v), v\<lparr>m_buf := Some (length h),
         m_const_objs := Some (length h, 0), m_capacity := n\<rparr>))"
    using lo hi cp ms by (simp add: realloc_def alloc_def Let_def)
  have f1: "length (free h3 (m_buf v)) = Suc (length h)"
    using len3 len2 by (simp add: length_free)
  have f2: "block (free h3 (m_buf v)) (length h) = Some (xs @ replicate ?r 0)"
    using nb bl3 by (simp add: block_free)
  have f3: "\<forall>b. b < length h \<and> Some b \<noteq> m_buf v \<longrightarrow> block (free h3 (m_buf v)) b = block h b"
  proof (intro allI impI)
    fix b assume b: "b < length h \<and> Some b \<noteq> m_buf v"
    then have "block (free h3 (m_buf v)) b = block h3 b" by (auto simp: block_free)
    also have "\<dots> = block h2 b" using oth3 b by simp
    also have "\<dots> = block ?h1 b" using oth2 b by simp
    also have "\<dots> = block h b" using b by (simp add: block_append_old)
    finally show "block (free h3 (m_buf v)) b = block h b" .
  qed
  show ?thesis using re f1 f2 f3 by blast
qed

lemma owned_not_fixed: "owned sz h v \<Longrightarrow> \<not> fixed v"
  by (auto simp: owned_def fixed_def split: option.splits)

lemma realloc_owned_post:
  assumes sz: "sz \<noteq> 0" and ow: "owned sz h v" and lo: "m_size v \<le> n" and hi: "n \<le> max_size sz"
  shows "\<exists>h' v'. realloc sz n (h, v) = (None, (h', v')) \<and> owned sz h' v'
           \<and> m_size v' = m_size v \<and> m_capacity v' = n
           \<and> contents sz h' v' = contents sz h v"
proof -
  from contents_owned [OF sz ow] obtain xs where cs: "contents sz h v = Some xs"
    and lxs: "length xs = unat (m_size v) * unat sz" by blast
  let ?v' = "v\<lparr>m_buf := Some (length h), m_const_objs := Some (length h, 0), m_capacity := n\<rparr>"
  let ?r = "(unat n - unat (m_size v)) * unat sz"
  from realloc_owned [OF sz ow lo hi cs] obtain h' where
    re: "realloc sz n (h, v) = (None, (h', ?v'))"
    and bl: "block h' (length h) = Some (xs @ replicate ?r 0)"
    by blast
  have len: "length (xs @ replicate ?r 0) = unat sz * unat n"
    using lxs lo by (simp add: word_le_nat_alt mult.commute diff_mult_distrib2 [symmetric] add_mult_distrib2 [symmetric])
  have o: "owned sz h' ?v'"
    using lo hi bl len by (simp add: owned_def)
  have c: "contents sz h' ?v' = Some xs"
    using bl lxs by (simp add: contents_def load_block)
  show ?thesis using re o c cs by simp
qed

lemma reserve_new_capacity:
  fixes n c mx :: "64 word"
  assumes "c \<le> mx" "\<not> n \<le> c" "n \<le> mx"
  shows "(let k = (if c > n div 2 then (if c > mx div 2 then mx else c * 2) else n)
          in n \<le> k \<and> k \<le> mx)"
proof -
  have two: "unat (2 :: 64 word) = 2" by simp
  show ?thesis
  proof (cases "c > n div 2")
    case False
    then show ?thesis using assms by (simp add: Let_def)
  next
    case True
    show ?thesis
    proof (cases "c > mx div 2")
      case True
      then show ?thesis using assms \<open>c > n div 2\<close> by (simp add: Let_def)
    next
      case False
      then have h1: "unat c \<le> unat mx div 2"
        by (simp add: word_less_nat_alt word_le_nat_alt unat_div not_less)
      then have h2: "unat c * 2 \<le> unat mx" by simp
      have "unat mx < 2 ^ 64" using unsigned_less [of mx] by simp
      then have "unat c * unat (2 :: 64 word) < 2 ^ 64" using h2 by simp
      then have u: "unat (c * 2) = unat c * 2"
        using unat_mult_lem [of c 2] by simp
      have h3: "unat n div 2 < unat c"
        using \<open>c > n div 2\<close> by (simp add: word_less_nat_alt unat_div)
      have "unat n \<le> unat (c * 2) \<and> unat (c * 2) \<le> unat mx"
        using u h2 h3 by simp
      then show ?thesis using False \<open>c > n div 2\<close> by (simp add: Let_def word_le_nat_alt)
    qed
  qed
qed

lemma reserve_owned:
  assumes sz: "sz \<noteq> 0" and ow: "owned sz h v"
  shows "\<exists>r h' v'. reserve sz n (h, v) = (r, (h', v')) \<and> owned sz h' v'
           \<and> m_size v' = m_size v \<and> contents sz h' v' = contents sz h v
           \<and> (if n \<le> m_capacity v \<or> n \<le> max_size sz
               then r = None \<and> n \<le> m_capacity v'
               else r = Some AssertionFailed \<and> h' = h \<and> v' = v)"
proof (cases "n \<le> m_capacity v")
  case True
  then show ?thesis using ow owned_not_fixed [OF ow] by (simp add: reserve_def)
next
  case nc: False
  show ?thesis
  proof (cases "n \<le> max_size sz")
    case False
    then show ?thesis using nc ow owned_not_fixed [OF ow] by (simp add: reserve_def)
  next
    case True
    let ?k = "(if m_capacity v > n div 2
               then (if m_capacity v > max_size sz div 2 then max_size sz
                     else m_capacity v * 2)
               else n)"
    have cm: "m_capacity v \<le> max_size sz" and sc: "m_size v \<le> m_capacity v"
      using ow by (auto simp: owned_def)
    from reserve_new_capacity [OF cm nc True] have k: "n \<le> ?k" "?k \<le> max_size sz"
      by (simp_all add: Let_def)
    have "m_size v \<le> ?k" using sc nc k(1) by (meson le_cases order_trans)
    from realloc_owned_post [OF sz ow this k(2)] obtain h' v' where
      re: "realloc sz ?k (h, v) = (None, (h', v'))" and o: "owned sz h' v'"
      and s: "m_size v' = m_size v" and c: "m_capacity v' = ?k"
      and cs: "contents sz h' v' = contents sz h v" by blast
    have "reserve sz n (h, v) = realloc sz ?k (h, v)"
      using nc True owned_not_fixed [OF ow] by (simp add: reserve_def Let_def)
    then show ?thesis using re o s c cs k(1) True by simp
  qed
qed

subsection \<open>The mutating calls keep an owned vector well-formed\<close>

lemma index_const_contents:
  assumes "contents sz h v = Some xs" "i < m_size v"
  shows "index_const sz h v i = Inr (take (unat sz) (drop (unat i * unat sz) xs))"
proof -
  have "Suc (unat i) \<le> unat (m_size v)"
    using assms(2) by (simp add: word_less_nat_alt)
  then have "Suc (unat i) * unat sz \<le> unat (m_size v) * unat sz"
    by (rule mult_le_mono1)
  then have "unat i * unat sz + unat sz \<le> unat (m_size v) * unat sz"
    by simp
  from load_sub [OF assms(1) [unfolded contents_def] this]
  show ?thesis using assms(2) by (simp add: index_const_def read_elem_def elem_ptr_def)
qed

lemma unat_succ:
  fixes a b :: "64 word"
  assumes "a < b"
  shows "unat (a + 1) = Suc (unat a)"
proof -
  have "unat a < unat b" using assms by (simp add: word_less_nat_alt)
  moreover have "unat b < 2 ^ 64" using unsigned_less [of b] by simp
  ultimately have "unat a + unat (1 :: 64 word) < 2 ^ 64" by simp
  then show ?thesis using unat_add_lem [of a 1] by simp
qed

lemma succ_le:
  fixes a b :: "64 word"
  assumes "a < b"
  shows "a + 1 \<le> b"
  using assms unat_succ [OF assms] by (simp add: word_le_nat_alt word_less_nat_alt)

lemma pred_le:
  fixes a :: "64 word"
  assumes "a \<noteq> 0"
  shows "a - 1 \<le> a"
  using unat_minus_one [OF assms] by (simp add: word_le_nat_alt)

lemma owned_default: "owned sz h Vector_default"
  by (simp add: owned_def Vector_default_def)

lemma owned_buf:
  assumes "owned sz h v" "m_capacity v \<noteq> 0"
  shows "\<exists>b bs. m_buf v = Some b \<and> m_const_objs v = Some (b, 0) \<and> block h b = Some bs
           \<and> length bs = unat sz * unat (m_capacity v)"
  using assms by (auto simp: owned_def split: option.splits)

lemma owned_store:
  assumes ow: "owned sz h v" and b: "m_buf v = Some b"
    and st: "store_bytes h (Some (b, off)) xs = Some h'"
    and le: "m_size v \<le> n" "n \<le> m_capacity v"
  shows "owned sz h' (v\<lparr>m_size := n\<rparr>)"
proof (cases "xs = []")
  case True
  with st have "h' = h" by (simp add: store_bytes_def)
  then show ?thesis using ow le by (auto simp: owned_def split: option.splits)
next
  case False
  from ow b obtain bs where bl: "block h b = Some bs"
    and len: "length bs = unat sz * unat (m_capacity v)"
    and c: "m_const_objs v = Some (b, 0)" and cm: "m_capacity v \<le> max_size sz"
    by (auto simp: owned_def split: option.splits)
  from st False bl have fit: "off + length xs \<le> length bs"
    by (auto simp: store_bytes_def split: if_splits)
  from store_bytes_block [OF bl fit] st
  have "block h' b = Some (take off bs @ xs @ drop (off + length xs) bs)" by auto
  moreover have "length (take off bs @ xs @ drop (off + length xs) bs) = length bs"
    using fit by simp
  ultimately show ?thesis using b c cm le len by (simp add: owned_def)
qed

lemma push_back_owned:
  assumes sz: "sz \<noteq> 0" and ow: "owned sz h v" and x: "length x = unat sz"
  shows "\<exists>r h' v'. push_back sz x (h, v) = (r, (h', v')) \<and> owned sz h' v'
           \<and> (if m_size v < max_size sz then r = None \<and> m_size v' = m_size v + 1
               else r = Some AssertionFailed \<and> h' = h \<and> v' = v)"
proof (cases "m_size v < max_size sz")
  case False
  then show ?thesis using ow owned_not_fixed [OF ow] by (simp add: push_back_def)
next
  case True
  then have n1: "m_size v + 1 \<le> max_size sz" by (rule succ_le)
  have u1: "unat (m_size v + 1) = Suc (unat (m_size v))"
    using True by (rule unat_succ)
  from reserve_owned [OF sz ow, of "m_size v + 1"] n1 obtain h1 v1 where
    re: "reserve sz (m_size v + 1) (h, v) = (None, (h1, v1))" and o1: "owned sz h1 v1"
    and s1: "m_size v1 = m_size v" and c1: "m_size v + 1 \<le> m_capacity v1"
    by auto
  have "m_capacity v1 \<noteq> 0" using c1 u1 by (auto simp: word_le_nat_alt)
  from owned_buf [OF o1 this] obtain b bs where b: "m_buf v1 = Some b"
    and bl: "block h1 b = Some bs" and len: "length bs = unat sz * unat (m_capacity v1)"
    by blast
  have "Suc (unat (m_size v)) * unat sz \<le> unat (m_capacity v1) * unat sz"
    using c1 u1 by (intro mult_le_mono1) (simp add: word_le_nat_alt)
  then have fit: "unat (m_size v1) * unat sz + length x \<le> length bs"
    using x s1 len by (simp add: mult.commute)
  from store_bytes_block [OF bl fit] obtain h2 where
    st: "store_bytes h1 (Some (b, unat (m_size v1) * unat sz)) x = Some h2" by blast
  have o2: "owned sz h2 (v1\<lparr>m_size := m_size v1 + 1\<rparr>)"
    using owned_store [OF o1 b st, of "m_size v1 + 1"] c1 s1 True
    by (simp add: word_le_nat_alt u1)
  have "push_back sz x (h, v) = (None, (h2, v1\<lparr>m_size := m_size v1 + 1\<rparr>))"
    using True owned_not_fixed [OF ow] re st b
    by (simp add: push_back_def objs_def elem_ptr_def ptr_add_def)
  then show ?thesis using o2 True s1 by simp
qed

lemma pop_back_owned:
  assumes ow: "owned sz h v"
  shows "\<exists>r h' v'. pop_back (h, v) = (r, (h', v')) \<and> owned sz h' v'
           \<and> (if m_size v \<noteq> 0 then r = None \<and> m_size v' = m_size v - 1 \<and> h' = h
               else r = Some AssertionFailed \<and> h' = h \<and> v' = v)"
proof (cases "m_size v = 0")
  case True
  then show ?thesis using ow owned_not_fixed [OF ow] by (simp add: pop_back_def)
next
  case False
  have "m_size v - 1 \<le> m_size v" using False by (rule pred_le)
  then have "m_size v - 1 \<le> m_capacity v" using ow by (auto simp: owned_def)
  then have "owned sz h (v\<lparr>m_size := m_size v - 1\<rparr>)"
    using ow by (auto simp: owned_def split: option.splits)
  then show ?thesis using False owned_not_fixed [OF ow] by (simp add: pop_back_def)
qed

lemma owned_set_size:
  "owned sz h v \<Longrightarrow> n \<le> m_capacity v \<Longrightarrow> owned sz h (v\<lparr>m_size := n\<rparr>)"
  by (auto simp: owned_def split: option.splits)

lemma resize_owned:
  assumes sz: "sz \<noteq> 0" and ow: "owned sz h v"
  shows "\<exists>r h' v'. resize sz n (h, v) = (r, (h', v')) \<and> owned sz h' v'
           \<and> (if n \<le> m_capacity v \<or> n \<le> max_size sz then r = None \<and> m_size v' = n
               else r = Some AssertionFailed \<and> h' = h \<and> v' = v)"
proof -
  from reserve_owned [OF sz ow, of n] obtain r h1 v1 where
    re: "reserve sz n (h, v) = (r, (h1, v1))" and o1: "owned sz h1 v1"
    and c: "if n \<le> m_capacity v \<or> n \<le> max_size sz
            then r = None \<and> n \<le> m_capacity v1
            else r = Some AssertionFailed \<and> h1 = h \<and> v1 = v"
    by blast
  show ?thesis
  proof (cases "n \<le> m_capacity v \<or> n \<le> max_size sz")
    case True
    with c have r: "r = None" and nc: "n \<le> m_capacity v1" by simp_all
    have "resize sz n (h, v) = (None, (h1, v1\<lparr>m_size := n\<rparr>))"
      using re r owned_not_fixed [OF ow] by (simp add: resize_def)
    then show ?thesis using owned_set_size [OF o1 nc] True by simp
  next
    case False
    with c have "r = Some AssertionFailed" "h1 = h" "v1 = v" by simp_all
    then have "resize sz n (h, v) = (Some AssertionFailed, (h, v))"
      using re owned_not_fixed [OF ow] by (simp add: resize_def)
    then show ?thesis using ow False by simp
  qed
qed

lemma shrink_owned:
  assumes sz: "sz \<noteq> 0" and ow: "owned sz h v"
  shows "\<exists>h' v'. shrink sz (h, v) = (None, (h', v')) \<and> owned sz h' v'
           \<and> m_size v' = m_size v \<and> m_capacity v' = m_size v
           \<and> contents sz h' v' = contents sz h v"
proof (cases "m_size v = m_capacity v")
  case True
  then show ?thesis using ow owned_not_fixed [OF ow] by (simp add: shrink_def)
next
  case False
  have "m_size v \<le> max_size sz" using ow by (auto simp: owned_def)
  from realloc_owned_post [OF sz ow order_refl this]
  show ?thesis using False owned_not_fixed [OF ow] by (simp add: shrink_def)
qed

lemma length_concat_replicate: "length (concat (replicate k x)) = k * length x"
  by (induction k) simp_all

lemma resize_fill_owned:
  assumes sz: "sz \<noteq> 0" and ow: "owned sz h v" and x: "length x = unat sz"
  shows "\<exists>r h' v'. resize_fill sz n x (h, v) = (r, (h', v')) \<and> owned sz h' v'
           \<and> (if n \<le> m_capacity v \<or> n \<le> max_size sz then r = None \<and> m_size v' = n
               else r = Some AssertionFailed \<and> h' = h \<and> v' = v)"
proof -
  from reserve_owned [OF sz ow, of n] obtain r h1 v1 where
    re: "reserve sz n (h, v) = (r, (h1, v1))" and o1: "owned sz h1 v1"
    and s1: "m_size v1 = m_size v"
    and c: "if n \<le> m_capacity v \<or> n \<le> max_size sz
            then r = None \<and> n \<le> m_capacity v1
            else r = Some AssertionFailed \<and> h1 = h \<and> v1 = v"
    by blast
  show ?thesis
  proof (cases "n \<le> m_capacity v \<or> n \<le> max_size sz")
    case False
    with c have "r = Some AssertionFailed" "h1 = h" "v1 = v" by simp_all
    then have "resize_fill sz n x (h, v) = (Some AssertionFailed, (h, v))"
      using re owned_not_fixed [OF ow] by (simp add: resize_fill_def)
    then show ?thesis using ow False by simp
  next
    case True
    with c have r: "r = None" and nc: "n \<le> m_capacity v1" by simp_all
    show ?thesis
    proof (cases "n > m_size v1")
      case False
      then have "resize_fill sz n x (h, v) = (None, (h1, v1\<lparr>m_size := n\<rparr>))"
        using re r owned_not_fixed [OF ow] by (simp add: resize_fill_def)
      then show ?thesis using owned_set_size [OF o1 nc] True by simp
    next
      case grow: True
      then have sn: "m_size v1 \<le> n" by simp
      have "m_capacity v1 \<noteq> 0" using grow nc by (auto simp: word_le_nat_alt word_less_nat_alt)
      from owned_buf [OF o1 this] obtain b bs where b: "m_buf v1 = Some b"
        and bl: "block h1 b = Some bs" and len: "length bs = unat sz * unat (m_capacity v1)"
        by blast
      let ?k = "unat (n - m_size v1)"
      have k: "?k = unat n - unat (m_size v1)" by (rule unat_sub_le [OF sn])
      have "unat (m_size v1) * unat sz + ?k * unat sz = unat n * unat sz"
        using sn k by (simp add: word_le_nat_alt add_mult_distrib [symmetric])
      moreover have "unat n * unat sz \<le> unat (m_capacity v1) * unat sz"
        using nc by (intro mult_le_mono1) (simp add: word_le_nat_alt)
      ultimately have fit:
        "unat (m_size v1) * unat sz + length (concat (replicate ?k x)) \<le> length bs"
        using x len by (simp add: length_concat_replicate mult.commute)
      from store_bytes_block [OF bl fit] obtain h2 where
        st: "store_bytes h1 (Some (b, unat (m_size v1) * unat sz)) (concat (replicate ?k x))
               = Some h2" by blast
      have o2: "owned sz h2 (v1\<lparr>m_size := n\<rparr>)"
        by (rule owned_store [OF o1 b st sn nc])
      have "resize_fill sz n x (h, v) = (None, (h2, v1\<lparr>m_size := n\<rparr>))"
        using re r owned_not_fixed [OF ow] grow st b
        by (simp add: resize_fill_def fill_n_def objs_def elem_ptr_def ptr_add_def)
      then show ?thesis using o2 True by simp
    qed
  qed
qed

lemma perform_owned:
  assumes sz: "sz \<noteq> 0" and ow: "owned sz h v" and ty: "typed sz c"
  shows "\<exists>r h' v'. perform sz c (h, v) = (r, (h', v')) \<and> owned sz h' v'
           \<and> (r = None \<or> r = Some AssertionFailed)"
proof (cases c)
  case (PushBack x)
  with ty have "length x = unat sz" by simp
  from push_back_owned [OF sz ow this] show ?thesis
    using PushBack by (auto split: if_splits)
next
  case PopBack
  from pop_back_owned [OF ow] show ?thesis
    using PopBack by (auto split: if_splits)
next
  case (Resize n)
  from resize_owned [OF sz ow, of n] show ?thesis
    using Resize by (auto split: if_splits)
next
  case (ResizeFill n x)
  with ty have "length x = unat sz" by simp
  from resize_fill_owned [OF sz ow this, of n] show ?thesis
    using ResizeFill by (auto split: if_splits)
next
  case (Reserve n)
  from reserve_owned [OF sz ow, of n] show ?thesis
    using Reserve by (auto split: if_splits)
next
  case Shrink
  from shrink_owned [OF sz ow] show ?thesis
    using Shrink by auto
qed

lemma perform_all_owned:
  assumes sz: "sz \<noteq> 0"
  shows "owned sz h v \<Longrightarrow> list_all (typed sz) cs \<Longrightarrow>
         \<exists>r h' v'. perform_all sz cs (h, v) = (r, (h', v')) \<and> owned sz h' v'
           \<and> (r = None \<or> r = Some AssertionFailed)"
proof (induction cs arbitrary: h v)
  case Nil
  then show ?case by simp
next
  case (Cons c cs)
  from Cons.prems have ty: "typed sz c" and rest: "list_all (typed sz) cs" by simp_all
  from perform_owned [OF sz Cons.prems(1) ty] obtain r h1 v1 where
    p: "perform sz c (h, v) = (r, (h1, v1))" and o1: "owned sz h1 v1"
    and r: "r = None \<or> r = Some AssertionFailed" by blast
  show ?case
  proof (cases r)
    case None
    from Cons.IH [OF o1 rest] show ?thesis using p None by simp
  next
    case (Some e)
    then show ?thesis using p o1 r by simp
  qed
qed

lemma elements_kept:
  assumes "contents sz h v = Some xs" "contents sz h' v' = Some xs" "m_size v' = m_size v"
  shows "\<forall>i. i < Vector_size v \<longrightarrow>
           (\<exists>x. index_const sz h v i = Inr x \<and> index_const sz h' v' i = Inr x)"
  using assms index_const_contents [of sz h v xs] index_const_contents [of sz h' v' xs]
  by (simp add: Vector_size_def)

subsection \<open>Size prefixes and padding\<close>

lemma length_nat_to_bytes: "length (nat_to_bytes k n) = k"
  by (induction k arbitrary: n) simp_all

lemma bytes_to_nat_to_bytes: "bytes_to_nat (nat_to_bytes k n) = n mod 256 ^ k"
proof (induction k arbitrary: n)
  case 0
  then show ?case by simp
next
  case (Suc k)
  have "unat (of_nat (n mod 256) :: byte) = n mod 256"
    by (simp add: unat_of_nat)
  then show ?case
    using Suc [of "n div 256"] by (simp add: mod_mult2_eq)
qed

lemma length_le_bytes: "length (le_bytes w) = 8"
  by (simp add: le_bytes_def length_nat_to_bytes)

lemma le_word_le_bytes: "le_word (le_bytes w) = w"
proof -
  have "unat w < 256 ^ 8" using unsigned_less [of w] by simp
  then show ?thesis
    by (simp add: le_word_def le_bytes_def bytes_to_nat_to_bytes)
qed

lemma contents_borrowed:
  assumes "borrowed sz h v"
  shows "\<exists>xs. contents sz h v = Some xs \<and> length xs = unat (m_size v) * unat sz"
proof -
  from assms obtain b off bs where c: "m_const_objs v = Some (b, off)"
    and bl: "block h b = Some bs" and le: "off + unat sz * unat (m_size v) \<le> length bs"
    by (auto simp: borrowed_def split: option.splits prod.splits)
  then show ?thesis
    by (simp add: contents_def load_block mult.commute)
qed

lemma contents_well_formed:
  assumes "sz \<noteq> 0" "well_formed sz h v"
  shows "\<exists>xs. contents sz h v = Some xs \<and> length xs = unat (m_size v) * unat sz"
  using assms contents_owned contents_borrowed by (auto simp: well_formed_def)

lemma size_well_formed:
  assumes "well_formed sz h v"
  shows "m_size v \<le> max_size sz"
  using assms by (auto simp: well_formed_def owned_def borrowed_def)

lemma pad_range:
  fixes t :: "64 word"
  shows "unat (8 - t mod 8) = 8 - unat t mod 8"
proof -
  have m: "unat (t mod 8) = unat t mod 8" by (simp add: unat_mod)
  have "unat t mod 8 < 8" by simp
  then have "t mod 8 \<le> 8" using m by (simp add: word_le_nat_alt)
  then show ?thesis using m by (simp add: unat_sub_le)
qed

lemma word_not_above_max: "\<not> (t :: 64 word) > - 1"
  by (simp add: not_less)

lemma div_le_max_size:
  assumes "sz \<noteq> 0"
  shows "t div sz \<le> max_size sz"
proof -
  have "unat t < 2 ^ 64" using unsigned_less [of t] by simp
  then have "unat t \<le> 2 ^ 64 - 1" by simp
  then have "unat t div unat sz \<le> (2 ^ 64 - 1) div unat sz" by (rule div_le_mono)
  then show ?thesis by (simp add: word_le_nat_alt unat_div unat_max_size)
qed

lemma unat_div_mult:
  assumes "t mod sz = 0"
  shows "unat (t div sz) * unat sz = unat t"
proof -
  have "unat t mod unat sz = 0" using assms by (metis unat_mod unsigned_0)
  then have "unat sz dvd unat t" by (simp add: mod_eq_0_iff_dvd)
  then show ?thesis by (simp add: unat_div)
qed

lemma total_size_div:
  assumes "sz \<noteq> 0" "n \<le> max_size sz"
  shows "(sz * n) mod sz = 0 \<and> (sz * n) div sz = n"
proof -
  have u: "unat (sz * n) = unat sz * unat n" by (rule unat_mult_sz [OF assms])
  have pos: "0 < unat sz" using assms(1) by (simp add: unat_gt_0)
  have "unat ((sz * n) mod sz) = 0" by (simp add: unat_mod u)
  then have a: "(sz * n) mod sz = 0" by (simp only: unat_eq_zero)
  have "unat ((sz * n) div sz) = unat n" using pos by (simp add: unat_div u)
  then have b: "(sz * n) div sz = n" by (simp only: word_unat_eq_iff)
  from a b show ?thesis by (rule conjI)
qed

subsection \<open>Construction from a reader\<close>

lemma contents_default: "contents sz h Vector_default = Some []"
  by (simp add: contents_def Vector_default_def load_def)

lemma resize_default_zero: "resize sz 0 (h, Vector_default) = (None, (h, Vector_default))"
  by (simp add: resize_def reserve_def fixed_def Vector_default_def)

lemma resize_default:
  assumes sz: "sz \<noteq> 0" and hi: "n \<le> max_size sz" and nz: "n \<noteq> 0"
  shows "\<exists>h1. resize sz n (h, Vector_default) =
           (None, (h1, \<lparr>m_buf = Some (length h), m_const_objs = Some (length h, 0),
                         m_size = n, m_capacity = n\<rparr>))
         \<and> length h1 = Suc (length h)
         \<and> block h1 (length h) = Some (replicate (unat n * unat sz) 0)
         \<and> (\<forall>b. b < length h \<longrightarrow> block h1 b = block h b)"
proof -
  let ?d = "Vector_default"
  have lo: "m_size ?d \<le> n" by (simp add: Vector_default_def)
  from realloc_owned [OF sz owned_default lo hi contents_default, of h]
  obtain h1 where re: "realloc sz n (h, ?d) =
      (None, (h1, ?d\<lparr>m_buf := Some (length h), m_const_objs := Some (length h, 0),
                       m_capacity := n\<rparr>))"
    and len: "length h1 = Suc (length h)"
    and bl: "block h1 (length h) = Some ([] @ replicate ((unat n - unat (m_size ?d)) * unat sz) 0)"
    and oth: "\<forall>b. b < length h \<and> Some b \<noteq> m_buf ?d \<longrightarrow> block h1 b = block h b"
    by blast
  have nf: "\<not> fixed ?d" by (simp add: fixed_def Vector_default_def)
  have c0: "\<not> n \<le> m_capacity ?d" using nz by (simp add: Vector_default_def)
  have d2: "\<not> m_capacity ?d > n div 2" by (simp add: Vector_default_def)
  have "reserve sz n (h, ?d) = realloc sz n (h, ?d)"
    using nf c0 hi d2 by (simp add: reserve_def Let_def)
  then have "resize sz n (h, ?d) =
      (None, (h1, \<lparr>m_buf = Some (length h), m_const_objs = Some (length h, 0),
                    m_size = n, m_capacity = n\<rparr>))"
    using nf re by (simp add: resize_def Vector_default_def)
  moreover have "block h1 (length h) = Some (replicate (unat n * unat sz) 0)"
    using bl by (simp add: Vector_default_def)
  moreover have "\<forall>b. b < length h \<longrightarrow> block h1 b = block h b"
    using oth by (simp add: Vector_default_def)
  ultimately show ?thesis using len by blast
qed

lemma Vector_of_Reader_ok:
  assumes sz: "sz \<noteq> 0"
    and a8: "r_pos r + 8 \<le> length (r_data r)"
    and t: "t = le_word (take 8 (drop (r_pos r) (r_data r)))"
    and dv: "t mod sz = 0"
    and fit: "r_pos r + 8 + unat t + (8 - unat t mod 8) \<le> length (r_data r)"
  shows "\<exists>h' v'. Vector_of_Reader sz h r =
           (Inr v', (h', r\<lparr>r_pos := r_pos r + 8 + unat t + (8 - unat t mod 8)\<rparr>))
         \<and> owned sz h' v' \<and> m_size v' = t div sz
         \<and> contents sz h' v' = Some (take (unat t) (drop (r_pos r + 8) (r_data r)))
         \<and> (\<forall>b. b < length h \<longrightarrow> block h' b = block h b)"
proof -
  let ?n = "t div sz"
  let ?xs = "take (unat t) (drop (r_pos r + 8) (r_data r))"
  let ?r1 = "r\<lparr>r_pos := r_pos r + 8\<rparr>"
  let ?r2 = "r\<lparr>r_pos := r_pos r + 8 + unat t\<rparr>"
  let ?r3 = "r\<lparr>r_pos := r_pos r + 8 + unat t + (8 - unat t mod 8)\<rparr>"
  have bytes: "unat ?n * unat sz = unat t" by (rule unat_div_mult [OF dv])
  have lxs: "length ?xs = unat t" using fit by simp
  have u64: "Reader_read_u64 r = Inr (t, ?r1)"
    using a8 t by (simp add: Reader_read_u64_def Reader_read_bytes_def)
  have rd: "Reader_read_bytes ?r1 (unat ?n * unat sz) = Inr (?xs, ?r2)"
    using fit bytes by (simp add: Reader_read_bytes_def)
  have sk: "Reader_seek ?r2 (unat (8 - t mod 8)) = Inr ?r3"
    using fit by (simp add: Reader_seek_def Reader_read_bytes_def pad_range)
  have hi: "?n \<le> max_size sz" by (rule div_le_max_size [OF sz])
  show ?thesis
  proof (cases "?n = 0")
    case True
    then have t0: "unat t = 0" using bytes by simp
    then have xs0: "?xs = []" by simp
    have "Vector_of_Reader sz h r = (Inr Vector_default, (h, ?r3))"
      using u64 dv True rd sk xs0 word_not_above_max [of t]
      by (simp add: Vector_of_Reader_def resize_default_zero store_bytes_def)
    moreover have "contents sz h Vector_default = Some ?xs"
      using xs0 contents_default by simp
    moreover have "m_size Vector_default = ?n"
      using True by (simp add: Vector_default_def)
    ultimately show ?thesis using owned_default by blast
  next
    case False
    let ?v1 = "\<lparr>m_buf = Some (length h), m_const_objs = Some (length h, 0),
                 m_size = ?n, m_capacity = ?n\<rparr>"
    from resize_default [OF sz hi False, of h] obtain h1 where
      rs: "resize sz ?n (h, Vector_default) = (None, (h1, ?v1))"
      and bl1: "block h1 (length h) = Some (replicate (unat ?n * unat sz) 0)"
      and oth1: "\<forall>b. b < length h \<longrightarrow> block h1 b = block h b"
      by blast
    have "0 + length ?xs \<le> length (replicate (unat ?n * unat sz) (0 :: byte))"
      using lxs bytes by simp
    from store_bytes_block [OF bl1 this] obtain h2 where
      st: "store_bytes h1 (Some (length h, 0)) ?xs = Some h2"
      and bl2: "block h2 (length h) = Some ?xs"
      and oth2: "\<forall>b'. b' \<noteq> length h \<longrightarrow> block h2 b' = block h1 b'"
      using lxs bytes by auto
    have "Vector_of_Reader sz h r = (Inr ?v1, (h2, ?r3))"
      using u64 dv rs rd sk st word_not_above_max [of t]
      by (simp add: Vector_of_Reader_def objs_def Let_def)
    moreover have "owned sz h2 ?v1"
      using hi bl2 lxs bytes by (simp add: owned_def mult.commute)
    moreover have "contents sz h2 ?v1 = Some ?xs"
      using bl2 lxs bytes by (simp add: contents_def load_block)
    moreover have "\<forall>b. b < length h \<longrightarrow> block h2 b = block h b"
      using oth1 oth2 by simp
    ultimately show ?thesis by simp
  qed
qed

subsection \<open>Construction from a mapper, and writing\<close>

lemma Vector_of_Mapper_ok:
  assumes sz: "sz \<noteq> 0"
    and bl: "block h b = Some bs"
    and p: "p_ptr m = Some (b, off)"
    and inside: "off + p_avail m \<le> length bs"
    and t: "t = le_word (take 8 (drop off bs))"
    and dv: "t mod sz = 0"
    and fit: "8 + unat t + (8 - unat t mod 8) \<le> p_avail m"
  shows "Vector_of_Mapper sz h m =
           (Inr \<lparr>m_buf = None, m_const_objs = Some (b, off + 8), m_size = t div sz,
                  m_capacity = 0\<rparr>,
            \<lparr>p_ptr = Some (b, off + 8 + unat t + unat (8 - t mod 8)),
              p_avail = p_avail m - 8 - unat t - unat (8 - t mod 8)\<rparr>)
         \<and> borrowed sz h \<lparr>m_buf = None, m_const_objs = Some (b, off + 8), m_size = t div sz,
                  m_capacity = 0\<rparr>
         \<and> contents sz h \<lparr>m_buf = None, m_const_objs = Some (b, off + 8), m_size = t div sz,
                  m_capacity = 0\<rparr> = Some (take (unat t) (drop (off + 8) bs))"
proof -
  let ?n = "t div sz"
  let ?v = "\<lparr>m_buf = None, m_const_objs = Some (b, off + 8), m_size = ?n, m_capacity = 0\<rparr>"
  let ?m1 = "m\<lparr>p_ptr := Some (b, off + 8), p_avail := p_avail m - 8\<rparr>"
  let ?m2 = "m\<lparr>p_ptr := Some (b, off + 8 + unat t), p_avail := p_avail m - 8 - unat t\<rparr>"
  have bytes: "unat ?n * unat sz = unat t" by (rule unat_div_mult [OF dv])
  have ld: "load h (Some (b, off)) 8 = Some (take 8 (drop off bs))"
    using bl inside fit by (simp add: load_block)
  have u64: "Mapper_map_u64 h m = Inr (t, ?m1)"
    using fit p ld t by (simp add: Mapper_map_u64_def Mapper_map_data_def ptr_add_def)
  have md: "Mapper_map_data ?m1 (unat ?n * unat sz) = Inr (Some (b, off + 8), ?m2)"
    using fit bytes by (simp add: Mapper_map_data_def ptr_add_def)
  have sk: "Mapper_seek ?m2 (unat (8 - t mod 8)) =
      Inr (m\<lparr>p_ptr := Some (b, off + 8 + unat t + unat (8 - t mod 8)),
             p_avail := p_avail m - 8 - unat t - unat (8 - t mod 8)\<rparr>)"
    using fit by (simp add: Mapper_seek_def Mapper_map_data_def ptr_add_def pad_range)
  have eqm: "m\<lparr>p_ptr := Some (b, off + 8 + unat t + unat (8 - t mod 8)),
             p_avail := p_avail m - 8 - unat t - unat (8 - t mod 8)\<rparr>
      = \<lparr>p_ptr = Some (b, off + 8 + unat t + unat (8 - t mod 8)),
              p_avail = p_avail m - 8 - unat t - unat (8 - t mod 8)\<rparr>"
    by simp
  have r: "Vector_of_Mapper sz h m = (Inr ?v,
      \<lparr>p_ptr = Some (b, off + 8 + unat t + unat (8 - t mod 8)),
        p_avail = p_avail m - 8 - unat t - unat (8 - t mod 8)\<rparr>)"
    using u64 dv md sk word_not_above_max [of t] unfolding eqm
    by (simp add: Vector_of_Mapper_def Let_def Vector_default_def)
  have le: "off + 8 + unat t \<le> length bs" using inside fit by simp
  have bo: "borrowed sz h ?v"
    using bl le bytes div_le_max_size [OF sz, of t] by (simp add: borrowed_def mult.commute)
  have co: "contents sz h ?v = Some (take (unat t) (drop (off + 8) bs))"
    using bl le bytes by (simp add: contents_def load_block)
  show ?thesis using r bo co by simp
qed

lemma Vector_of_Reader_conds:
  assumes "Vector_of_Reader sz h r = (Inr v, s')"
  shows "r_pos r + 8 \<le> length (r_data r)
       \<and> le_word (take 8 (drop (r_pos r) (r_data r))) mod sz = 0
       \<and> r_pos r + 8 + unat (le_word (take 8 (drop (r_pos r) (r_data r))))
           + (8 - unat (le_word (take 8 (drop (r_pos r) (r_data r)))) mod 8)
           \<le> length (r_data r)"
proof -
  let ?t = "le_word (take 8 (drop (r_pos r) (r_data r)))"
  from assms have a8: "r_pos r + 8 \<le> length (r_data r)"
    by (auto simp: Vector_of_Reader_def Reader_read_u64_def Reader_read_bytes_def
        split: if_splits sum.splits)
  then have u64: "Reader_read_u64 r = Inr (?t, r\<lparr>r_pos := r_pos r + 8\<rparr>)"
    by (simp add: Reader_read_u64_def Reader_read_bytes_def)
  from assms u64 have dv: "?t mod sz = 0"
    by (auto simp: Vector_of_Reader_def split: if_splits)
  have bytes: "unat (?t div sz) * unat sz = unat ?t" by (rule unat_div_mult [OF dv])
  from assms u64 dv obtain xs r2 r3 where
    rd: "Reader_read_bytes (r\<lparr>r_pos := r_pos r + 8\<rparr>) (unat (?t div sz) * unat sz) = Inr (xs, r2)"
    and sk: "Reader_seek r2 (unat (8 - ?t mod 8)) = Inr r3"
    by (auto simp: Vector_of_Reader_def Let_def
        split: if_splits sum.splits prod.splits option.splits)
  from rd bytes have r2: "r2 = r\<lparr>r_pos := r_pos r + 8 + unat ?t\<rparr>"
    and f1: "r_pos r + 8 + unat ?t \<le> length (r_data r)"
    by (auto simp: Reader_read_bytes_def split: if_splits)
  from sk r2 have "r_pos r + 8 + unat ?t + (8 - unat ?t mod 8) \<le> length (r_data r)"
    by (auto simp: Reader_seek_def Reader_read_bytes_def pad_range split: if_splits sum.splits)
  with a8 dv show ?thesis by simp
qed

lemma Vector_of_Mapper_conds:
  assumes "Vector_of_Mapper sz h m = (Inr v, m')"
    and bl: "block h b = Some bs"
    and p: "p_ptr m = Some (b, off)"
    and inside: "off + p_avail m \<le> length bs"
  shows "le_word (take 8 (drop off bs)) mod sz = 0
       \<and> 8 + unat (le_word (take 8 (drop off bs)))
           + (8 - unat (le_word (take 8 (drop off bs))) mod 8) \<le> p_avail m"
proof -
  let ?t = "le_word (take 8 (drop off bs))"
  let ?m1 = "m\<lparr>p_ptr := Some (b, off + 8), p_avail := p_avail m - 8\<rparr>"
  from assms(1) have a8: "8 \<le> p_avail m"
    by (auto simp: Vector_of_Mapper_def Mapper_map_u64_def Mapper_map_data_def
        split: if_splits sum.splits)
  have ld: "load h (Some (b, off)) 8 = Some (take 8 (drop off bs))"
    using bl inside a8 by (simp add: load_block)
  have u64: "Mapper_map_u64 h m = Inr (?t, ?m1)"
    using a8 p ld by (simp add: Mapper_map_u64_def Mapper_map_data_def ptr_add_def)
  from assms(1) u64 have dv: "?t mod sz = 0"
    by (auto simp: Vector_of_Mapper_def split: if_splits)
  have bytes: "unat (?t div sz) * unat sz = unat ?t" by (rule unat_div_mult [OF dv])
  from assms(1) u64 dv obtain q m2 m3 where
    md: "Mapper_map_data ?m1 (unat (?t div sz) * unat sz) = Inr (q, m2)"
    and sk: "Mapper_seek m2 (unat (8 - ?t mod 8)) = Inr m3"
    by (auto simp: Vector_of_Mapper_def Let_def
        split: if_splits sum.splits prod.splits option.splits)
  from md bytes have m2: "p_avail m2 = p_avail m - 8 - unat ?t"
    and f1: "unat ?t \<le> p_avail m - 8"
    by (auto simp: Mapper_map_data_def split: if_splits)
  from sk m2 have "8 - unat ?t mod 8 \<le> p_avail m - 8 - unat ?t"
    by (auto simp: Mapper_seek_def Mapper_map_data_def pad_range split: if_splits sum.splits)
  with a8 f1 dv show ?thesis by simp
qed

lemma Vector_write_ok:
  assumes "contents sz h v = Some xs"
  shows "Vector_write sz h v w =
           (None, w @ le_bytes (sz * m_size v) @ xs
                    @ replicate (8 - unat (sz * m_size v) mod 8) 0)"
  using assms
  by (simp add: Vector_write_def Writer_write_u64_def Writer_write_objs_def Writer_seek_def
      contents_def total_size_def pad_range Let_def)

subsection \<open>The capacity invariant\<close>

text \<open>
  C8 (the invariant of an owned vector). Take any element size \<open>sizeof(T) \<noteq> 0\<close>, any
  owned vector (the default-constructed one is owned) and any sequence of
  \<open>push_back\<close>, \<open>pop_back\<close>, \<open>resize\<close>, \<open>reserve\<close> and \<open>shrink\<close> calls whose element
  arguments are values of \<open>T\<close>. The sequence runs to its end or stops at a failed
  assertion of a precondition, never at an invalid memory access, and the vector it
  leaves is not fixed and has \<open>size() \<le> capacity() \<le> max_size()\<close>. Moreover a single
  \<open>reserve\<close> or \<open>shrink\<close> keeps \<open>size()\<close>, and every index below \<open>size()\<close> reads the same
  element after the call as before.
\<close>

theorem C8_size_le_capacity_le_max_size:
  assumes "sz \<noteq> 0" and "owned sz h v" and "list_all (typed sz) cs"
  shows "(\<exists>r h' v'. perform_all sz cs (h, v) = (r, (h', v'))
            \<and> Vector_size v' \<le> capacity v' \<and> capacity v' \<le> max_size sz \<and> \<not> fixed v'
            \<and> (r = None \<or> r = Some AssertionFailed))
       \<and> (\<exists>r h' v'. reserve sz n (h, v) = (r, (h', v')) \<and> Vector_size v' = Vector_size v
            \<and> (\<forall>i. i < Vector_size v \<longrightarrow>
                  (\<exists>x. index_const sz h v i = Inr x \<and> index_const sz h' v' i = Inr x)))
       \<and> (\<exists>h' v'. shrink sz (h, v) = (None, (h', v')) \<and> Vector_size v' = Vector_size v
            \<and> capacity v' = Vector_size v
            \<and> (\<forall>i. i < Vector_size v \<longrightarrow>
                  (\<exists>x. index_const sz h v i = Inr x \<and> index_const sz h' v' i = Inr x)))"
proof (intro conjI)
  from perform_all_owned [OF assms] obtain r h' v' where
    p: "perform_all sz cs (h, v) = (r, (h', v'))" and o: "owned sz h' v'"
    and r: "r = None \<or> r = Some AssertionFailed" by blast
  have "m_size v' \<le> m_capacity v'" "m_capacity v' \<le> max_size sz"
    using o by (auto simp: owned_def)
  then show "\<exists>r h' v'. perform_all sz cs (h, v) = (r, (h', v'))
            \<and> Vector_size v' \<le> capacity v' \<and> capacity v' \<le> max_size sz \<and> \<not> fixed v'
            \<and> (r = None \<or> r = Some AssertionFailed)"
    using p r owned_not_fixed [OF o] by (simp add: Vector_size_def capacity_def)
next
  from contents_owned [OF assms(1,2)] obtain xs where cs: "contents sz h v = Some xs"
    by blast
  from reserve_owned [OF assms(1,2), of n] obtain r h' v' where
    re: "reserve sz n (h, v) = (r, (h', v'))" and s: "m_size v' = m_size v"
    and c: "contents sz h' v' = contents sz h v" by blast
  from elements_kept [OF cs _ s, of h'] c cs
  show "\<exists>r h' v'. reserve sz n (h, v) = (r, (h', v')) \<and> Vector_size v' = Vector_size v
            \<and> (\<forall>i. i < Vector_size v \<longrightarrow>
                  (\<exists>x. index_const sz h v i = Inr x \<and> index_const sz h' v' i = Inr x))"
    using re s by (auto simp: Vector_size_def)
next
  from contents_owned [OF assms(1,2)] obtain xs where cs: "contents sz h v = Some xs"
    by blast
  from shrink_owned [OF assms(1,2)] obtain h' v' where
    sh: "shrink sz (h, v) = (None, (h', v'))" and s: "m_size v' = m_size v"
    and cp: "m_capacity v' = m_size v"
    and c: "contents sz h' v' = contents sz h v" by blast
  from elements_kept [OF cs _ s, of h'] c cs
  show "\<exists>h' v'. shrink sz (h, v) = (None, (h', v')) \<and> Vector_size v' = Vector_size v
            \<and> capacity v' = Vector_size v
            \<and> (\<forall>i. i < Vector_size v \<longrightarrow>
                  (\<exists>x. index_const sz h v i = Inr x \<and> index_const sz h' v' i = Inr x))"
    using sh s cp by (auto simp: Vector_size_def capacity_def)
qed

lemma three_pushed:
  "perform_all 1 [PushBack [1], PushBack [2], PushBack [3]] ([], Vector_default)
     = (None, ([None, None, Some [1, 2, 3, 0]],
               \<lparr>m_buf = Some 2, m_const_objs = Some (2, 0), m_size = 3, m_capacity = 4\<rparr>))"
  by code_simp

theorem C8_invariant_witness:
  "(1 :: 64 word) \<noteq> 0
   \<and> owned 1 [None, None, Some [1, 2, 3, 0]]
        \<lparr>m_buf = Some 2, m_const_objs = Some (2, 0), m_size = 3, m_capacity = 4\<rparr>
   \<and> list_all (typed 1) [PushBack [4], PushBack [5], PopBack, Resize 9, Shrink]
   \<and> (\<exists>r h' v'.
         perform_all 1 [PushBack [4], PushBack [5], PopBack, Resize 9, Shrink]
           ([None, None, Some [1, 2, 3, 0]],
            \<lparr>m_buf = Some 2, m_const_objs = Some (2, 0), m_size = 3, m_capacity = 4\<rparr>)
           = (r, (h', v'))
         \<and> Vector_size v' \<le> capacity v' \<and> capacity v' \<le> max_size 1 \<and> \<not> fixed v'
         \<and> (r = None \<or> r = Some AssertionFailed))
   \<and> (\<exists>h' v'.
         shrink 1 ([None, None, Some [1, 2, 3, 0]],
            \<lparr>m_buf = Some 2, m_const_objs = Some (2, 0), m_size = 3, m_capacity = 4\<rparr>)
           = (None, (h', v'))
         \<and> capacity v' = 3
         \<and> (\<forall>i. i < 3 \<longrightarrow> (\<exists>x.
               index_const 1 [None, None, Some [1, 2, 3, 0]]
                 \<lparr>m_buf = Some 2, m_const_objs = Some (2, 0), m_size = 3, m_capacity = 4\<rparr> i
                 = Inr x
               \<and> index_const 1 h' v' i = Inr x)))"
proof -
  let ?h = "[None, None, Some [1, 2, 3, 0]] :: heap"
  let ?v = "\<lparr>m_buf = Some 2, m_const_objs = Some (2, 0), m_size = 3, m_capacity = 4\<rparr>"
  let ?cs = "[PushBack [4], PushBack [5], PopBack, Resize 9, Shrink]"
  have a1: "(1 :: 64 word) \<noteq> 0" by simp
  have a2: "owned 1 ?h ?v" by code_simp
  have a3: "list_all (typed 1) ?cs" by simp
  have sv: "Vector_size ?v = 3" by (simp add: Vector_size_def)
  from C8_size_le_capacity_le_max_size [OF a1 a2 a3, of 0]
  show ?thesis using a1 a2 a3 unfolding sv by blast
qed

subsection \<open>Mutation of a fixed vector\<close>

lemma Vector_of_Mapper_fixed:
  assumes "Vector_of_Mapper sz h m = (Inr v, m')"
  shows "fixed v"
proof -
  from assms obtain t m1 where u: "Mapper_map_u64 h m = Inr (t, m1)"
    by (auto simp: Vector_of_Mapper_def split: sum.splits prod.splits)
  then have p: "p_ptr m \<noteq> None" "p_ptr m1 = ptr_add (p_ptr m) 8"
    by (auto simp: Mapper_map_u64_def Mapper_map_data_def load_def
        split: sum.splits prod.splits option.splits if_splits)
  then have nn: "p_ptr m1 \<noteq> None"
    by (auto simp: ptr_add_def split: option.splits)
  from assms u have "m_buf v = None \<and> m_const_objs v = p_ptr m1"
    by (auto simp: Vector_of_Mapper_def Mapper_map_data_def Let_def
        Vector_default_def split: sum.splits prod.splits if_splits)
  with nn show ?thesis by (simp add: fixed_def)
qed

text \<open>
  C7, as stated, fails for \<open>push_back\<close>: on the vector obtained by mapping the sixteen
  bytes of a serialized three-element byte vector, the call stops at the failed
  assertion \<open>assert(!fixed())\<close>, which is an abort and not an error of the logic-error
  kind.
\<close>

theorem C7_push_back_on_mapped_vector_aborts:
  "Vector_of_Mapper 1 [Some [3, 0, 0, 0, 0, 0, 0, 0, 1, 2, 3, 0, 0, 0, 0, 0]]
       \<lparr>p_ptr = Some (0, 0), p_avail = 16\<rparr>
     = (Inr \<lparr>m_buf = None, m_const_objs = Some (0, 8), m_size = 3, m_capacity = 0\<rparr>,
        \<lparr>p_ptr = Some (0, 16), p_avail = 0\<rparr>)
   \<and> fixed \<lparr>m_buf = None, m_const_objs = Some (0, 8), m_size = 3, m_capacity = 0\<rparr>
   \<and> fst (push_back 1 [7]
            ([Some [3, 0, 0, 0, 0, 0, 0, 0, 1, 2, 3, 0, 0, 0, 0, 0]],
             \<lparr>m_buf = None, m_const_objs = Some (0, 8), m_size = 3, m_capacity = 0\<rparr>))
       = Some AssertionFailed
   \<and> Some AssertionFailed \<noteq> Some LogicError"
  by code_simp

text \<open>
  C7, amended. On a fixed vector, \<open>shrink\<close> fails with a logic error and leaves the
  heap and the vector as they were. \<open>push_back\<close>, \<open>pop_back\<close>, both \<open>resize\<close>
  overloads and \<open>reserve\<close> stop at the failed assertion \<open>assert(!fixed())\<close> before
  they change anything, and so do the non-\<open>const\<close> accessors \<open>begin\<close>, \<open>end\<close>,
  \<open>operator[]\<close>, \<open>front\<close> and \<open>back\<close>.
\<close>

theorem C7_fixed_vector_shrink_throws_others_assert:
  assumes "fixed v"
  shows "shrink sz (h, v) = (Some LogicError, (h, v))
       \<and> push_back sz x (h, v) = (Some AssertionFailed, (h, v))
       \<and> pop_back (h, v) = (Some AssertionFailed, (h, v))
       \<and> resize sz n (h, v) = (Some AssertionFailed, (h, v))
       \<and> resize_fill sz n x (h, v) = (Some AssertionFailed, (h, v))
       \<and> reserve sz n (h, v) = (Some AssertionFailed, (h, v))
       \<and> begin_mut v = Inl AssertionFailed
       \<and> end_mut sz v = Inl AssertionFailed
       \<and> index_mut sz v i = Inl AssertionFailed
       \<and> front_mut sz v = Inl AssertionFailed
       \<and> back_mut sz v = Inl AssertionFailed"
  using assms
  by (simp add: shrink_def push_back_def pop_back_def resize_def resize_fill_def
      reserve_def begin_mut_def end_mut_def index_mut_def front_mut_def back_mut_def)

theorem C7_fixed_vector_witness:
  "fixed \<lparr>m_buf = None, m_const_objs = Some (0, 8), m_size = 3, m_capacity = 0\<rparr>
   \<and> shrink 1 ([Some [3, 0, 0, 0, 0, 0, 0, 0, 1, 2, 3, 0, 0, 0, 0, 0]],
        \<lparr>m_buf = None, m_const_objs = Some (0, 8), m_size = 3, m_capacity = 0\<rparr>)
       = (Some LogicError,
          ([Some [3, 0, 0, 0, 0, 0, 0, 0, 1, 2, 3, 0, 0, 0, 0, 0]],
           \<lparr>m_buf = None, m_const_objs = Some (0, 8), m_size = 3, m_capacity = 0\<rparr>))
   \<and> pop_back ([Some [3, 0, 0, 0, 0, 0, 0, 0, 1, 2, 3, 0, 0, 0, 0, 0]],
        \<lparr>m_buf = None, m_const_objs = Some (0, 8), m_size = 3, m_capacity = 0\<rparr>)
       = (Some AssertionFailed,
          ([Some [3, 0, 0, 0, 0, 0, 0, 0, 1, 2, 3, 0, 0, 0, 0, 0]],
           \<lparr>m_buf = None, m_const_objs = Some (0, 8), m_size = 3, m_capacity = 0\<rparr>))
   \<and> index_mut 1 \<lparr>m_buf = None, m_const_objs = Some (0, 8), m_size = 3, m_capacity = 0\<rparr> 0
       = Inl AssertionFailed"
proof -
  let ?h = "[Some [3, 0, 0, 0, 0, 0, 0, 0, 1, 2, 3, 0, 0, 0, 0, 0]] :: heap"
  let ?v = "\<lparr>m_buf = None, m_const_objs = Some (0, 8), m_size = 3, m_capacity = 0\<rparr>"
  have f: "fixed ?v" by (simp add: fixed_def)
  from C7_fixed_vector_shrink_throws_others_assert [OF f, of 1 ?h "[7]" 5 0]
  show ?thesis using f by blast
qed

subsection \<open>The size on disk\<close>

text \<open>
  C4 (\<open>io_size\<close> is the number of bytes \<open>write\<close> emits). The default-constructed
  vector has \<open>io_size() = 8\<close>, and \<open>write\<close> emits 16 bytes for it: the size prefix and
  then \<open>8 - 0 % 8 = 8\<close> bytes of padding. The same happens whenever \<open>total_size()\<close> is
  a multiple of 8: a vector of one 8-byte element has \<open>io_size() = 16\<close> and is written
  as 24 bytes.
\<close>

theorem C4_write_emits_eight_bytes_more_than_io_size:
  "fst (Vector_write 1 [] Vector_default []) = None
   \<and> length (snd (Vector_write 1 [] Vector_default [])) = 16
   \<and> io_size 1 Vector_default = 8
   \<and> owned 8 [Some [1, 2, 3, 4, 5, 6, 7, 8]]
        \<lparr>m_buf = Some 0, m_const_objs = Some (0, 0), m_size = 1, m_capacity = 1\<rparr>
   \<and> fst (Vector_write 8 [Some [1, 2, 3, 4, 5, 6, 7, 8]]
        \<lparr>m_buf = Some 0, m_const_objs = Some (0, 0), m_size = 1, m_capacity = 1\<rparr> []) = None
   \<and> length (snd (Vector_write 8 [Some [1, 2, 3, 4, 5, 6, 7, 8]]
        \<lparr>m_buf = Some 0, m_const_objs = Some (0, 0), m_size = 1, m_capacity = 1\<rparr> [])) = 24
   \<and> io_size 8 \<lparr>m_buf = Some 0, m_const_objs = Some (0, 0), m_size = 1, m_capacity = 1\<rparr> = 16"
  by code_simp

text \<open>
  In general: \<open>io_size()\<close> is 8 plus the sum \<open>total_size() + 7\<close> with its three
  low bits, and every bit from the thirty-third on, cleared.
\<close>

lemma io_mask: "(ucast (NOT (0x07 :: 32 word)) :: 64 word) = mask (29 + 3) AND NOT (mask 3)"
  by code_simp

lemma and_io_mask:
  fixes x :: "64 word"
  shows "unat (x AND ucast (NOT (0x07 :: 32 word))) = 8 * ((unat x div 8) mod 2 ^ 29)"
proof -
  have "x AND ucast (NOT (0x07 :: 32 word)) = push_bit 3 (take_bit 29 (drop_bit 3 x))"
    unfolding io_mask slice_eq_mask by (simp add: and.assoc)
  also have "unat \<dots> = take_bit LENGTH(64) (push_bit 3 (take_bit 29 (drop_bit 3 (unat x))))"
    by (simp only: unsigned_push_bit_eq unsigned_take_bit_eq unat_drop_bit_eq)
  also have "\<dots> = (8 * ((unat x div 8) mod 2 ^ 29)) mod 2 ^ 64"
    by (simp add: take_bit_eq_mod drop_bit_eq_div push_bit_eq_mult mult.commute)
  also have "\<dots> = 8 * ((unat x div 8) mod 2 ^ 29)"
  proof -
    have "(unat x div 8) mod 2 ^ 29 < 2 ^ 29" by simp
    then have "8 * ((unat x div 8) mod 2 ^ 29) < 2 ^ 64" by simp
    then show ?thesis by simp
  qed
  finally show ?thesis .
qed

lemma io_size_unat:
  "unat (io_size sz v) = 8 + 8 * ((unat (total_size sz v + 7) div 8) mod 2 ^ 29)"
proof -
  let ?a = "(total_size sz v + 7) AND ucast (NOT (0x07 :: 32 word))"
  have a: "unat ?a = 8 * ((unat (total_size sz v + 7) div 8) mod 2 ^ 29)"
    by (rule and_io_mask)
  have "(unat (total_size sz v + 7) div 8) mod 2 ^ 29 < 2 ^ 29" by simp
  then have "unat (8 :: 64 word) + unat ?a < 2 ^ 64" unfolding a by simp
  then have "unat (8 + ?a) = unat (8 :: 64 word) + unat ?a"
    using unat_add_lem [of 8 ?a] by simp
  then show ?thesis unfolding a by (simp add: io_size_def)
qed

lemma written_against_io_size:
  assumes cs: "contents sz h v = Some xs"
    and lx: "length xs = unat (total_size sz v)"
    and small: "unat (total_size sz v) + 7 < 2 ^ 32"
  shows "length (snd (Vector_write sz h v [])) =
           unat (io_size sz v) + (if unat (total_size sz v) mod 8 = 0 then 8 else 0)"
proof -
  let ?t = "unat (total_size sz v)"
  have wr: "length (snd (Vector_write sz h v [])) = 8 + ?t + (8 - ?t mod 8)"
    using Vector_write_ok [OF cs, of "[]"] lx
    by (simp add: length_le_bytes total_size_def)
  have "?t + unat (7 :: 64 word) < 2 ^ 64" using small by simp
  then have t7: "unat (total_size sz v + 7) = ?t + 7"
    using unat_add_lem [of "total_size sz v" 7] by simp
  have "(?t + 7) div 8 < 2 ^ 29" using small by simp
  then have io: "unat (io_size sz v) = 8 + 8 * ((?t + 7) div 8)"
    by (simp add: io_size_unat t7)
  show ?thesis
    unfolding wr io by presburger
qed

text \<open>
  For every well-formed vector of less than 4 GiB, the number of bytes written and
  \<open>io_size()\<close> differ by exactly the eight bytes of padding that \<open>write\<close> adds to
  a payload that is already aligned, and agree when the payload is not aligned.
\<close>

lemma written_length_against_io_size:
  assumes "sz \<noteq> 0" and "well_formed sz h v" and "unat (total_size sz v) + 7 < 2 ^ 32"
  shows "fst (Vector_write sz h v []) = None
       \<and> length (snd (Vector_write sz h v [])) =
           unat (io_size sz v) + (if unat (total_size sz v) mod 8 = 0 then 8 else 0)"
proof -
  from contents_well_formed [OF assms(1,2)] obtain xs where cs: "contents sz h v = Some xs"
    and lxs: "length xs = unat (m_size v) * unat sz" by blast
  have "unat (sz * m_size v) = unat sz * unat (m_size v)"
    by (rule unat_mult_sz [OF assms(1) size_well_formed [OF assms(2)]])
  then have lx: "length xs = unat (total_size sz v)"
    using lxs by (simp add: total_size_def mult.commute)
  show ?thesis
    using written_against_io_size [OF cs lx assms(3)] Vector_write_ok [OF cs, of "[]"]
    by simp
qed

text \<open>
  Beyond that size \<open>io_size\<close> also loses the high half of the sum: the mask
  \<open>~0x07U\<close> has 32 bits.
\<close>

lemma io_size_of_four_gigabytes: "io_size 1 (Vector_default\<lparr>m_size := 0x100000000\<rparr>) = 8"
  by code_simp

subsection \<open>Copies\<close>

text \<open>
  C9 (a copy has the same elements). Three bytes 1, 2, 3 are pushed onto a
  default-constructed \<open>Vector\<close> of one-byte elements; the result owns its buffer and
  reads 1, 2, 3. Its copy, by the copy constructor as by copy assignment, has size 3
  and reads 0, 0, 0: \<open>copyInit\<close> copies the elements and then clears the whole new
  buffer. The source is left as it was.
\<close>

theorem C9_copy_of_owned_vector_reads_zero:
  "perform_all 1 [PushBack [1], PushBack [2], PushBack [3]] ([], Vector_default)
     = (None, ([None, None, Some [1, 2, 3, 0]],
               \<lparr>m_buf = Some 2, m_const_objs = Some (2, 0), m_size = 3, m_capacity = 4\<rparr>))
   \<and> map (index_const 1 [None, None, Some [1, 2, 3, 0]]
             \<lparr>m_buf = Some 2, m_const_objs = Some (2, 0), m_size = 3, m_capacity = 4\<rparr>)
          [0, 1, 2]
       = [Inr [1], Inr [2], Inr [3]]
   \<and> Vector_copy 1 [None, None, Some [1, 2, 3, 0]]
        \<lparr>m_buf = Some 2, m_const_objs = Some (2, 0), m_size = 3, m_capacity = 4\<rparr>
       = (None, ([None, None, Some [1, 2, 3, 0], Some [0, 0, 0, 0]],
                 \<lparr>m_buf = Some 3, m_const_objs = Some (3, 0), m_size = 3, m_capacity = 4\<rparr>))
   \<and> map (index_const 1 [None, None, Some [1, 2, 3, 0], Some [0, 0, 0, 0]]
             \<lparr>m_buf = Some 3, m_const_objs = Some (3, 0), m_size = 3, m_capacity = 4\<rparr>)
          [0, 1, 2]
       = [Inr [0], Inr [0], Inr [0]]
   \<and> Vector_assign 1
        \<lparr>m_buf = Some 2, m_const_objs = Some (2, 0), m_size = 3, m_capacity = 4\<rparr>
        ([None, None, Some [1, 2, 3, 0]], Vector_default)
       = (None, ([None, None, Some [1, 2, 3, 0], Some [0, 0, 0, 0]],
                 \<lparr>m_buf = Some 3, m_const_objs = Some (3, 0), m_size = 3, m_capacity = 4\<rparr>))"
  by code_simp

text \<open>
  What does hold of copies: the copy of a vector that owns no buffer (a fixed one in
  particular) allocates nothing and has the source's pointer, size and capacity, so
  it is fixed when the source is and reads the same memory.
\<close>

lemma copy_of_fixed_shares_storage:
  assumes "fixed other"
  shows "\<exists>v'. Vector_copy sz h other = (None, (h, v')) \<and> fixed v'
           \<and> m_const_objs v' = m_const_objs other \<and> Vector_size v' = Vector_size other
           \<and> index_const sz h v' i = index_const sz h other i"
  using assms
  by (simp add: Vector_copy_def fixed_def Vector_default_def Vector_size_def index_const_def)

subsection \<open>Round trip through the serialized form\<close>

text \<open>
  C5 (write, then read back). For every element size \<open>sizeof(T) \<noteq> 0\<close> and every
  well-formed vector \<open>v\<close>, owned or borrowed: \<open>write\<close> succeeds and appends some
  bytes to the writer, a multiple of 8 in number; and a \<open>Reader\<close> that stands at the
  start of those bytes, whatever comes before and after them in its input and whatever
  the heap of the reading side, constructs a vector \<open>v'\<close> of the same \<open>size()\<close>
  whose element at every index below \<open>size()\<close> is the element of \<open>v\<close>, and is left
  standing exactly at the end of the bytes.
\<close>

theorem C5_write_then_read_round_trip:
  assumes "sz \<noteq> 0" and "well_formed sz h v"
  shows "\<exists>bytes. Vector_write sz h v w = (None, w @ bytes)
        \<and> length bytes mod 8 = 0
        \<and> (\<exists>v' h'. Vector_of_Reader sz hr \<lparr>r_data = pre @ bytes @ post, r_pos = length pre\<rparr>
              = (Inr v', (h', \<lparr>r_data = pre @ bytes @ post,
                               r_pos = length pre + length bytes\<rparr>))
            \<and> Vector_size v' = Vector_size v
            \<and> (\<forall>i. i < Vector_size v \<longrightarrow>
                  (\<exists>x. index_const sz h v i = Inr x \<and> index_const sz h' v' i = Inr x)))"
proof -
  let ?t = "sz * m_size v"
  from contents_well_formed [OF assms] obtain xs where cs: "contents sz h v = Some xs"
    and lxs: "length xs = unat (m_size v) * unat sz" by blast
  have hi: "m_size v \<le> max_size sz" by (rule size_well_formed [OF assms(2)])
  have ut: "unat ?t = unat sz * unat (m_size v)" by (rule unat_mult_sz [OF assms(1) hi])
  then have lx: "length xs = unat ?t" using lxs by (simp add: mult.commute)
  let ?pad = "replicate (8 - unat ?t mod 8) (0 :: byte)"
  let ?bytes = "le_bytes ?t @ xs @ ?pad"
  let ?r = "\<lparr>r_data = pre @ ?bytes @ post, r_pos = length pre\<rparr>"
  have wr: "Vector_write sz h v w = (None, w @ ?bytes)"
    by (rule Vector_write_ok [OF cs])
  have lb: "length ?bytes = 8 + unat ?t + (8 - unat ?t mod 8)"
    using lx by (simp add: length_le_bytes)
  have m8: "length ?bytes mod 8 = 0"
    unfolding lb by presburger
  have a8: "r_pos ?r + 8 \<le> length (r_data ?r)"
    by (simp add: length_le_bytes)
  have tk: "take 8 (drop (r_pos ?r) (r_data ?r)) = le_bytes ?t"
    by (simp add: length_le_bytes)
  have t: "?t = le_word (take 8 (drop (r_pos ?r) (r_data ?r)))"
    unfolding tk by (simp add: le_word_le_bytes)
  have dv: "?t mod sz = 0" and dq: "?t div sz = m_size v"
    using total_size_div [OF assms(1) hi] by simp_all
  have fit: "r_pos ?r + 8 + unat ?t + (8 - unat ?t mod 8) \<le> length (r_data ?r)"
    using lx by (simp add: length_le_bytes)
  have pl: "take (unat ?t) (drop (r_pos ?r + 8) (r_data ?r)) = xs"
    using lx by (simp add: length_le_bytes)
  from Vector_of_Reader_ok [OF assms(1) a8 t dv fit, of hr] obtain h' v' where
    rd: "Vector_of_Reader sz hr ?r =
           (Inr v', (h', ?r\<lparr>r_pos := r_pos ?r + 8 + unat ?t + (8 - unat ?t mod 8)\<rparr>))"
    and s: "m_size v' = ?t div sz"
    and c: "contents sz h' v' = Some (take (unat ?t) (drop (r_pos ?r + 8) (r_data ?r)))"
    by blast
  have c': "contents sz h' v' = Some xs" using c pl by simp
  have s': "m_size v' = m_size v" using s dq by simp
  have pos: "?r\<lparr>r_pos := r_pos ?r + 8 + unat ?t + (8 - unat ?t mod 8)\<rparr>
      = \<lparr>r_data = pre @ ?bytes @ post, r_pos = length pre + length ?bytes\<rparr>"
    using lb by simp
  have rd': "Vector_of_Reader sz hr ?r =
      (Inr v', (h', \<lparr>r_data = pre @ ?bytes @ post, r_pos = length pre + length ?bytes\<rparr>))"
    using rd unfolding pos .
  have el: "\<forall>i. i < Vector_size v \<longrightarrow>
      (\<exists>x. index_const sz h v i = Inr x \<and> index_const sz h' v' i = Inr x)"
    by (rule elements_kept [OF cs c' s'])
  have sv: "Vector_size v' = Vector_size v" using s' by (simp add: Vector_size_def)
  have inner: "\<exists>v' h'. Vector_of_Reader sz hr \<lparr>r_data = pre @ ?bytes @ post, r_pos = length pre\<rparr>
              = (Inr v', (h', \<lparr>r_data = pre @ ?bytes @ post,
                               r_pos = length pre + length ?bytes\<rparr>))
            \<and> Vector_size v' = Vector_size v
            \<and> (\<forall>i. i < Vector_size v \<longrightarrow>
                  (\<exists>x. index_const sz h v i = Inr x \<and> index_const sz h' v' i = Inr x))"
    using rd' sv el by blast
  show ?thesis
    by (rule exI [of _ ?bytes]) (intro conjI wr m8 inner)
qed

theorem C5_round_trip_witness:
  "(1 :: 64 word) \<noteq> 0
   \<and> well_formed 1 [None, None, Some [1, 2, 3, 0]]
        \<lparr>m_buf = Some 2, m_const_objs = Some (2, 0), m_size = 3, m_capacity = 4\<rparr>
   \<and> (\<exists>bytes.
         Vector_write 1 [None, None, Some [1, 2, 3, 0]]
           \<lparr>m_buf = Some 2, m_const_objs = Some (2, 0), m_size = 3, m_capacity = 4\<rparr> []
           = (None, [] @ bytes)
         \<and> length bytes mod 8 = 0
         \<and> (\<exists>v' h'.
               Vector_of_Reader 1 [] \<lparr>r_data = [7] @ bytes @ [9, 9], r_pos = length [7 :: byte]\<rparr>
                 = (Inr v', (h', \<lparr>r_data = [7] @ bytes @ [9, 9],
                                  r_pos = length [7 :: byte] + length bytes\<rparr>))
               \<and> Vector_size v'
                   = Vector_size
                       \<lparr>m_buf = Some 2, m_const_objs = Some (2, 0), m_size = 3, m_capacity = 4\<rparr>
               \<and> (\<forall>i. i < Vector_size
                            \<lparr>m_buf = Some 2, m_const_objs = Some (2, 0), m_size = 3,
                              m_capacity = 4\<rparr> \<longrightarrow>
                     (\<exists>x. index_const 1 [None, None, Some [1, 2, 3, 0]]
                            \<lparr>m_buf = Some 2, m_const_objs = Some (2, 0), m_size = 3,
                              m_capacity = 4\<rparr> i = Inr x
                          \<and> index_const 1 h' v' i = Inr x))))"
proof -
  let ?h = "[None, None, Some [1, 2, 3, 0]] :: heap"
  let ?v = "\<lparr>m_buf = Some 2, m_const_objs = Some (2, 0), m_size = 3, m_capacity = 4\<rparr>"
  have a1: "(1 :: 64 word) \<noteq> 0" by simp
  have a2: "well_formed 1 ?h ?v" by code_simp
  from C5_write_then_read_round_trip [OF a1 a2, of "[]" "[]" "[7]" "[9, 9]"]
  show ?thesis using a1 a2 by blast
qed

lemma round_trip_example:
  "Vector_write 1 [None, None, Some [1, 2, 3, 0]]
       \<lparr>m_buf = Some 2, m_const_objs = Some (2, 0), m_size = 3, m_capacity = 4\<rparr> []
     = (None, [3, 0, 0, 0, 0, 0, 0, 0, 1, 2, 3, 0, 0, 0, 0, 0])
   \<and> Vector_of_Reader 1 []
         \<lparr>r_data = [3, 0, 0, 0, 0, 0, 0, 0, 1, 2, 3, 0, 0, 0, 0, 0, 9, 9], r_pos = 0\<rparr>
     = (Inr \<lparr>m_buf = Some 0, m_const_objs = Some (0, 0), m_size = 3, m_capacity = 3\<rparr>,
        ([Some [1, 2, 3]],
         \<lparr>r_data = [3, 0, 0, 0, 0, 0, 0, 0, 1, 2, 3, 0, 0, 0, 0, 0, 9, 9], r_pos = 16\<rparr>))"
  by code_simp

subsection \<open>Mapping against reading\<close>

text \<open>
  C6 (a mapped vector and a read vector agree). Let a live block of the heap hold the
  serialized bytes, let a \<open>Mapper\<close> stand at offset \<open>off\<close> of that block with the
  rest of the block available, and let a \<open>Reader\<close> stand at position \<open>off\<close> of the
  same bytes. Then one constructor succeeds exactly when the other does; and when they
  do, the two vectors have the same \<open>size()\<close> and \<open>total_size()\<close> and read the same
  element at every index below \<open>size()\<close>. The mapped vector is fixed and its element
  pointer is the address of the payload inside the mapped block (the constructor has no
  access to the heap other than reading the size prefix, so nothing is allocated or
  copied); the read vector is not fixed, and reading leaves the mapped block as it was.
\<close>

theorem C6_mapped_and_read_vectors_agree:
  assumes sz: "sz \<noteq> 0" and bl: "block h b = Some bytes" and off: "off \<le> length bytes"
  shows "((\<exists>vm m'. Vector_of_Mapper sz h \<lparr>p_ptr = Some (b, off), p_avail = length bytes - off\<rparr>
                   = (Inr vm, m'))
          \<longleftrightarrow> (\<exists>vr s'. Vector_of_Reader sz h \<lparr>r_data = bytes, r_pos = off\<rparr> = (Inr vr, s')))
       \<and> (\<forall>vm m' vr h' r'.
            Vector_of_Mapper sz h \<lparr>p_ptr = Some (b, off), p_avail = length bytes - off\<rparr>
              = (Inr vm, m')
            \<and> Vector_of_Reader sz h \<lparr>r_data = bytes, r_pos = off\<rparr> = (Inr vr, (h', r'))
            \<longrightarrow> Vector_size vm = Vector_size vr
              \<and> total_size sz vm = total_size sz vr
              \<and> fixed vm \<and> \<not> fixed vr
              \<and> m_const_objs vm = Some (b, off + 8)
              \<and> block h' b = Some bytes
              \<and> (\<forall>i. i < Vector_size vm \<longrightarrow>
                    (\<exists>x. index_const sz h' vm i = Inr x \<and> index_const sz h' vr i = Inr x)))"
proof (intro conjI iffI allI impI)
  let ?m = "\<lparr>p_ptr = Some (b, off), p_avail = length bytes - off\<rparr>"
  let ?r = "\<lparr>r_data = bytes, r_pos = off\<rparr>"
  let ?t = "le_word (take 8 (drop off bytes))"
  have pm: "p_ptr ?m = Some (b, off)" by simp
  have inside: "off + p_avail ?m \<le> length bytes" using off by simp
  {
    assume "\<exists>vm m'. Vector_of_Mapper sz h ?m = (Inr vm, m')"
    then obtain vm m' where mp: "Vector_of_Mapper sz h ?m = (Inr vm, m')" by blast
    from Vector_of_Mapper_conds [OF mp bl pm inside]
    have dv: "?t mod sz = 0" and fit: "8 + unat ?t + (8 - unat ?t mod 8) \<le> p_avail ?m"
      by simp_all
    have a8: "r_pos ?r + 8 \<le> length (r_data ?r)" using fit off by simp
    have t: "?t = le_word (take 8 (drop (r_pos ?r) (r_data ?r)))" by simp
    have fit': "r_pos ?r + 8 + unat ?t + (8 - unat ?t mod 8) \<le> length (r_data ?r)"
      using fit off by simp
    from Vector_of_Reader_ok [OF sz a8 t dv fit', of h]
    show "\<exists>vr s'. Vector_of_Reader sz h ?r = (Inr vr, s')" by blast
  }
  {
    assume "\<exists>vr s'. Vector_of_Reader sz h ?r = (Inr vr, s')"
    then obtain vr s' where rd: "Vector_of_Reader sz h ?r = (Inr vr, s')" by blast
    from Vector_of_Reader_conds [OF rd]
    have dv: "?t mod sz = 0" by simp
    from Vector_of_Reader_conds [OF rd]
    have "off + 8 + unat ?t + (8 - unat ?t mod 8) \<le> length bytes"
      by (simp only: Reader.select_convs)
    then have fit: "8 + unat ?t + (8 - unat ?t mod 8) \<le> p_avail ?m"
      by (simp only: Mapper.select_convs)
    from Vector_of_Mapper_ok [OF sz bl pm inside refl dv fit]
    show "\<exists>vm m'. Vector_of_Mapper sz h ?m = (Inr vm, m')" by blast
  }
  fix vm m' vr h' r'
  assume both: "Vector_of_Mapper sz h ?m = (Inr vm, m')
      \<and> Vector_of_Reader sz h ?r = (Inr vr, (h', r'))"
  then have mp: "Vector_of_Mapper sz h ?m = (Inr vm, m')"
    and rd: "Vector_of_Reader sz h ?r = (Inr vr, (h', r'))" by simp_all
  from Vector_of_Mapper_conds [OF mp bl pm inside]
  have dv: "?t mod sz = 0" and fit: "8 + unat ?t + (8 - unat ?t mod 8) \<le> p_avail ?m"
    by simp_all
  let ?ys = "take (unat ?t) (drop (off + 8) bytes)"
  from Vector_of_Mapper_ok [OF sz bl pm inside refl dv fit] mp
  have vm: "vm = \<lparr>m_buf = None, m_const_objs = Some (b, off + 8), m_size = ?t div sz,
                   m_capacity = 0\<rparr>"
    by simp
  have a8: "r_pos ?r + 8 \<le> length (r_data ?r)" using fit off by simp
  have t: "?t = le_word (take 8 (drop (r_pos ?r) (r_data ?r)))" by simp
  have fit': "r_pos ?r + 8 + unat ?t + (8 - unat ?t mod 8) \<le> length (r_data ?r)"
    using fit off by simp
  from Vector_of_Reader_ok [OF sz a8 t dv fit', of h] rd
  have ow: "owned sz h' vr" and sr: "m_size vr = ?t div sz"
    and cr: "contents sz h' vr = Some ?ys"
    and keep: "\<forall>b. b < length h \<longrightarrow> block h' b = block h b"
    by auto
  have bl': "block h' b = Some bytes" using keep bl block_less [OF bl] by simp
  have bytes: "unat (?t div sz) * unat sz = unat ?t" by (rule unat_div_mult [OF dv])
  have le: "off + 8 + unat ?t \<le> length bytes" using fit off by simp
  have cm: "contents sz h' vm = Some ?ys"
    using bl' le bytes vm by (simp add: contents_def load_block)
  have sm: "m_size vr = m_size vm" using sr vm by simp
  show "Vector_size vm = Vector_size vr" using sm by (simp add: Vector_size_def)
  show "total_size sz vm = total_size sz vr" using sm by (simp add: total_size_def)
  show "fixed vm" using vm by (simp add: fixed_def)
  show "\<not> fixed vr" by (rule owned_not_fixed [OF ow])
  show "m_const_objs vm = Some (b, off + 8)" using vm by simp
  show "block h' b = Some bytes" by (rule bl')
  fix i
  assume "i < Vector_size vm"
  with elements_kept [OF cm cr sm]
  show "\<exists>x. index_const sz h' vm i = Inr x \<and> index_const sz h' vr i = Inr x"
    by blast
qed

theorem C6_mapped_and_read_witness:
  "(1 :: 64 word) \<noteq> 0
   \<and> block [Some [3, 0, 0, 0, 0, 0, 0, 0, 1, 2, 3, 0, 0, 0, 0, 0]] 0
       = Some [3, 0, 0, 0, 0, 0, 0, 0, 1, 2, 3, 0, 0, 0, 0, 0]
   \<and> (0 :: nat) \<le> length [3, 0, 0, 0, 0, 0, 0, 0, 1, 2, 3, 0, 0, 0, 0, 0 :: byte]
   \<and> Vector_of_Mapper 1 [Some [3, 0, 0, 0, 0, 0, 0, 0, 1, 2, 3, 0, 0, 0, 0, 0]]
         \<lparr>p_ptr = Some (0, 0), p_avail = 16\<rparr>
       = (Inr \<lparr>m_buf = None, m_const_objs = Some (0, 8), m_size = 3, m_capacity = 0\<rparr>,
          \<lparr>p_ptr = Some (0, 16), p_avail = 0\<rparr>)
   \<and> Vector_of_Reader 1 [Some [3, 0, 0, 0, 0, 0, 0, 0, 1, 2, 3, 0, 0, 0, 0, 0]]
         \<lparr>r_data = [3, 0, 0, 0, 0, 0, 0, 0, 1, 2, 3, 0, 0, 0, 0, 0], r_pos = 0\<rparr>
       = (Inr \<lparr>m_buf = Some 1, m_const_objs = Some (1, 0), m_size = 3, m_capacity = 3\<rparr>,
          ([Some [3, 0, 0, 0, 0, 0, 0, 0, 1, 2, 3, 0, 0, 0, 0, 0], Some [1, 2, 3]],
           \<lparr>r_data = [3, 0, 0, 0, 0, 0, 0, 0, 1, 2, 3, 0, 0, 0, 0, 0], r_pos = 16\<rparr>))
   \<and> fixed \<lparr>m_buf = None, m_const_objs = Some (0, 8), m_size = 3, m_capacity = 0\<rparr>
   \<and> \<not> fixed \<lparr>m_buf = Some 1, m_const_objs = Some (1, 0), m_size = 3, m_capacity = 3\<rparr>
   \<and> (\<exists>x. index_const 1
              [Some [3, 0, 0, 0, 0, 0, 0, 0, 1, 2, 3, 0, 0, 0, 0, 0], Some [1, 2, 3]]
              \<lparr>m_buf = None, m_const_objs = Some (0, 8), m_size = 3, m_capacity = 0\<rparr> 2
            = Inr x
          \<and> index_const 1
              [Some [3, 0, 0, 0, 0, 0, 0, 0, 1, 2, 3, 0, 0, 0, 0, 0], Some [1, 2, 3]]
              \<lparr>m_buf = Some 1, m_const_objs = Some (1, 0), m_size = 3, m_capacity = 3\<rparr> 2
            = Inr x)"
proof -
  let ?bytes = "[3, 0, 0, 0, 0, 0, 0, 0, 1, 2, 3, 0, 0, 0, 0, 0] :: byte list"
  let ?h = "[Some ?bytes] :: heap"
  let ?vm = "\<lparr>m_buf = None, m_const_objs = Some (0, 8), m_size = 3, m_capacity = 0\<rparr>"
  let ?vr = "\<lparr>m_buf = Some 1, m_const_objs = Some (1, 0), m_size = 3, m_capacity = 3\<rparr>"
  have a1: "(1 :: 64 word) \<noteq> 0" by simp
  have a2: "block ?h 0 = Some ?bytes" by (simp add: block_def)
  have a3: "(0 :: nat) \<le> length ?bytes" by simp
  have mp16: "Vector_of_Mapper 1 ?h \<lparr>p_ptr = Some (0, 0), p_avail = 16\<rparr>
      = (Inr ?vm, \<lparr>p_ptr = Some (0, 16), p_avail = 0\<rparr>)"
    by code_simp
  have l16: "length ?bytes - 0 = 16" by simp
  have mp: "Vector_of_Mapper 1 ?h \<lparr>p_ptr = Some (0, 0), p_avail = length ?bytes - 0\<rparr>
      = (Inr ?vm, \<lparr>p_ptr = Some (0, 16), p_avail = 0\<rparr>)"
    unfolding l16 by (rule mp16)
  have rd: "Vector_of_Reader 1 ?h \<lparr>r_data = ?bytes, r_pos = 0\<rparr>
      = (Inr ?vr, ([Some ?bytes, Some [1, 2, 3]], \<lparr>r_data = ?bytes, r_pos = 16\<rparr>))"
    by code_simp
  have sv: "Vector_size ?vm = 3" by (simp add: Vector_size_def)
  from C6_mapped_and_read_vectors_agree [OF a1 a2 a3] mp rd
  have res: "fixed ?vm \<and> \<not> fixed ?vr
      \<and> (\<forall>i. i < Vector_size ?vm \<longrightarrow>
            (\<exists>x. index_const 1 [Some ?bytes, Some [1, 2, 3]] ?vm i = Inr x
                 \<and> index_const 1 [Some ?bytes, Some [1, 2, 3]] ?vr i = Inr x))"
    by blast
  have two: "(2 :: 64 word) < 3" by simp
  from res two have at2:
    "\<exists>x. index_const 1 [Some ?bytes, Some [1, 2, 3]] ?vm 2 = Inr x
        \<and> index_const 1 [Some ?bytes, Some [1, 2, 3]] ?vr 2 = Inr x"
    unfolding sv by blast
  show ?thesis
    using a1 a2 a3 mp16 rd res at2 by blast
qed

end
